theory Spec2Isabelle
  imports Main "HOL-Library.Char_ord"
begin

section \<open>Python values shared by the four tools\<close>

text \<open>
  The tools are Python scripts. Their strings are modelled as \<^typ>\<open>string\<close>, a character
  being a code point below 256 compared by its ordinal (the order of \<open>HOL-Library.Char_ord\<close>),
  their dictionaries as insertion-ordered association lists, and every exception the
  modelled lines can raise as a value of \<open>py_error\<close>: a function that can raise returns
  \<open>Inl\<close> of the exception or \<open>Inr\<close> of its result.
\<close>

datatype py_error =
    KeyError | IndexError | ValueError | TypeError | AttributeError
  | AssertionError | StopIteration | SystemExit | UnboundLocalError

definition ord :: "char \<Rightarrow> nat" where
  "ord c = of_char c"

text \<open>\<open>str.isalpha\<close> on one character: the letters among the code points below 256.\<close>

definition isalpha :: "char \<Rightarrow> bool" where
  "isalpha c =
     (let n = ord c in
        (65 \<le> n \<and> n \<le> 90) \<or> (97 \<le> n \<and> n \<le> 122) \<or> n = 170 \<or> n = 181 \<or> n = 186 \<or>
        (192 \<le> n \<and> n \<le> 214) \<or> (216 \<le> n \<and> n \<le> 246) \<or> (248 \<le> n \<and> n \<le> 255))"

text \<open>The regular-expression classes \<open>[A-Z]\<close> and \<open>\d\<close>.\<close>

definition is_AZ :: "char \<Rightarrow> bool" where
  "is_AZ c = (65 \<le> ord c \<and> ord c \<le> 90)"

definition is_digit :: "char \<Rightarrow> bool" where
  "is_digit c = (48 \<le> ord c \<and> ord c \<le> 57)"

text \<open>\<open>str.isspace\<close> on one character, as \<open>str.strip()\<close> and \<open>str.split()\<close> use it.\<close>

definition isspace :: "char \<Rightarrow> bool" where
  "isspace c =
     (let n = ord c in (9 \<le> n \<and> n \<le> 13) \<or> (28 \<le> n \<and> n \<le> 32) \<or> n = 133 \<or> n = 160)"

text \<open>\<open>s.strip()\<close>, \<open>s.rstrip()\<close>, \<open>s.lstrip(chars)\<close> and \<open>s.strip(chars)\<close>.\<close>

definition rstrip_chars :: "(char \<Rightarrow> bool) \<Rightarrow> string \<Rightarrow> string" where
  "rstrip_chars p s = rev (dropWhile p (rev s))"

definition lstrip_chars :: "(char \<Rightarrow> bool) \<Rightarrow> string \<Rightarrow> string" where
  "lstrip_chars p s = dropWhile p s"

definition strip_chars :: "(char \<Rightarrow> bool) \<Rightarrow> string \<Rightarrow> string" where
  "strip_chars p s = rstrip_chars p (lstrip_chars p s)"

definition strip :: "string \<Rightarrow> string" where
  "strip s = strip_chars isspace s"

text \<open>\<open>s.split(sep)\<close> for a one-character separator: always at least one piece.\<close>

fun split_on :: "char \<Rightarrow> string \<Rightarrow> string list" where
  "split_on sep [] = [[]]"
| "split_on sep (c # cs) =
     (if c = sep then [] # split_on sep cs
      else (case split_on sep cs of
              [] \<Rightarrow> [[c]]
            | p # ps \<Rightarrow> (c # p) # ps))"

text \<open>\<open>sep.join(parts)\<close>.\<close>

fun join :: "string \<Rightarrow> string list \<Rightarrow> string" where
  "join sep [] = []"
| "join sep [p] = p"
| "join sep (p # q # ps) = p @ sep @ join sep (q # ps)"

text \<open>
  \<open>s.replace(old, new)\<close>: the occurrences of \<open>old\<close> are taken from the left and do not
  overlap; an empty \<open>old\<close> puts \<open>new\<close> before every character and at the end.
\<close>

function py_replace :: "string \<Rightarrow> string \<Rightarrow> string \<Rightarrow> string" where
  "py_replace old new [] = (if old = [] then new else [])"
| "py_replace old new (c # cs) =
     (if old = [] then new @ c # py_replace old new cs
      else if take (length old) (c # cs) = old
           then new @ py_replace old new (drop (length old - 1) cs)
           else c # py_replace old new cs)"
  by pat_completeness auto
termination
  by (relation "measure (\<lambda>(old, new, s). length s)") auto

text \<open>
  \<open>re.findall\<close> and \<open>re.search\<close> for a pattern given by its matcher: \<open>m s\<close> is the length
  of the match that starts at the head of \<open>s\<close>, if there is one. The scan goes from the
  left; \<open>findall\<close> resumes behind a match, so its matches do not overlap.
\<close>

function py_findall :: "(string \<Rightarrow> nat option) \<Rightarrow> string \<Rightarrow> string list" where
  "py_findall m [] = []"
| "py_findall m (c # cs) =
     (case m (c # cs) of
        None \<Rightarrow> py_findall m cs
      | Some n \<Rightarrow> take n (c # cs) # py_findall m (drop (n - 1) cs))"
  by pat_completeness auto
termination
  by (relation "measure (\<lambda>(m, s). length s)") auto

fun py_search :: "(string \<Rightarrow> nat option) \<Rightarrow> string \<Rightarrow> string option" where
  "py_search m [] = None"
| "py_search m (c # cs) =
     (case m (c # cs) of
        None \<Rightarrow> py_search m cs
      | Some n \<Rightarrow> Some (take n (c # cs)))"

text \<open>The value of a string of decimal digits.\<close>

definition digit_val :: "char \<Rightarrow> nat" where
  "digit_val c = ord c - 48"

definition nat_of_digits :: "string \<Rightarrow> nat" where
  "nat_of_digits ds = foldl (\<lambda>acc c. 10 * acc + digit_val c) 0 ds"

section \<open>SAM to FASTA: one read in reference coordinates\<close>

text \<open>
  \<open>split_sam_cigar\<close> is \<open>re.findall('\d{1,}[A-Z]{1}', cigar)\<close>: a match is a maximal run
  of digits followed by one upper-case letter (a shorter run of digits would be followed
  by a digit, which \<open>[A-Z]\<close> refuses).
\<close>

definition match_cigar_op :: "string \<Rightarrow> nat option" where
  "match_cigar_op s =
     (let k = length (takeWhile is_digit s) in
        if 1 \<le> k \<and> k < length s \<and> is_AZ (s ! k) then Some (k + 1) else None)"

definition split_sam_cigar :: "string \<Rightarrow> string list" where
  "split_sam_cigar cigar = py_findall match_cigar_op cigar"

text \<open>\<open>split_sam_cigar_operation\<close>: the last character and the number before it.\<close>

definition split_sam_cigar_operation :: "string \<Rightarrow> char \<times> nat" where
  "split_sam_cigar_operation one_operation =
     (last one_operation, nat_of_digits (butlast one_operation))"

definition get_sam_cigar_operations :: "string \<Rightarrow> (char \<times> nat) list" where
  "get_sam_cigar_operations cigar = map split_sam_cigar_operation (split_sam_cigar cigar)"

text \<open>
  \<open>lambda_dict\<close>: for an operation code the function from the query cursor, the reference
  cursor, the length and SEQ to the new cursors and the extension; \<open>None\<close> for a code
  that is not a key. \<open>seq[a:a + n]\<close> is \<open>take n (drop a seq)\<close>.
\<close>

definition lambda_dict :: "char \<Rightarrow> (nat \<Rightarrow> nat \<Rightarrow> nat \<Rightarrow> string \<Rightarrow> nat \<times> nat \<times> string) option" where
  "lambda_dict operation =
     (if operation = CHR ''M'' \<or> operation = CHR ''='' \<or> operation = CHR ''X''
        then Some (\<lambda>query_start ref_start len seq.
               (query_start + len, ref_start + len, take len (drop query_start seq)))
      else if operation = CHR ''I'' \<or> operation = CHR ''S''
        then Some (\<lambda>query_start ref_start len seq. (query_start + len, ref_start, []))
      else if operation = CHR ''D'' \<or> operation = CHR ''N''
        then Some (\<lambda>query_start ref_start len seq.
               (query_start, ref_start + len, replicate len (CHR ''-'')))
      else if operation = CHR ''H'' \<or> operation = CHR ''P''
        then Some (\<lambda>query_start ref_start len seq. (query_start, ref_start, []))
      else None)"

text \<open>
  The fields of \<open>parse_sam_line\<close>'s dictionary that \<open>get_one_string\<close> reads, POS after
  \<open>int\<close>.
\<close>

record aln_info =
  POS :: int
  CIGAR :: string
  SEQ :: string

text \<open>The loop over the operations: the state is (qstart, rstart, new\_seq).\<close>

fun apply_operations ::
  "string \<Rightarrow> (char \<times> nat) list \<Rightarrow> nat \<times> nat \<times> string \<Rightarrow> py_error + (nat \<times> nat \<times> string)" where
  "apply_operations seq [] st = Inr st"
| "apply_operations seq (op1 # ops) (qstart, rstart, new_seq) =
     (case lambda_dict (fst op1) of
        None \<Rightarrow> Inl KeyError
      | Some f \<Rightarrow>
          (case f qstart rstart (snd op1) seq of
             (new_qstart, new_rstart, extension) \<Rightarrow>
               apply_operations seq ops (new_qstart, new_rstart, new_seq @ extension)))"

text \<open>
  \<open>get_one_string\<close>: \<open>Inr None\<close> is the \<open>None\<close> returned for a negative POS. A string
  times a negative number is empty, hence \<open>nat\<close> in the right pad.
\<close>

definition get_one_string :: "aln_info \<Rightarrow> int \<Rightarrow> py_error + string option" where
  "get_one_string aln_info_dict rlen =
     (if POS aln_info_dict < 0 then Inr None
      else
        let operations = get_sam_cigar_operations (CIGAR aln_info_dict);
            pos = nat (POS aln_info_dict)
        in case apply_operations (SEQ aln_info_dict) operations
                  (0, pos, replicate pos (CHR ''*'')) of
             Inl e \<Rightarrow> Inl e
           | Inr (qstart, rstart, new_seq) \<Rightarrow>
               Inr (Some (new_seq @ replicate (nat (rlen - int (length new_seq))) (CHR ''*''))))"

text \<open>
  \<open>check_and_get_flattened_site\<close>: \<open>sum\<close> counts the alphabetic characters of the
  site, \<open>max\<close> of an empty site raises.
\<close>

definition check_and_get_flattened_site :: "string \<Rightarrow> py_error + char" where
  "check_and_get_flattened_site site =
     (let check = length (filter isalpha site) in
        if check > 1 then Inr (CHR ''&'')
        else (case site of
                [] \<Rightarrow> Inl ValueError
              | x # xs \<Rightarrow> Inr (fold max xs x)))"

text \<open>
  \<open>swap_in_gaps_Ns\<close>. The matchers of its three patterns: \<open>[A-Z]\*+[A-Z]\<close>,
  \<open>\*+[A-Z]\<close> (tried at the start of the string only, for \<open>^\<close>) and \<open>[A-Z]\*+$\<close>
  (\<open>$\<close> holds at the end of the string and before a newline that ends it). In each the
  run of stars is maximal: a shorter one would be followed by a star.
\<close>

definition is_star :: "char \<Rightarrow> bool" where
  "is_star c = (c = CHR ''*'')"

definition match_r_internal :: "string \<Rightarrow> nat option" where
  "match_r_internal s =
     (case s of
        [] \<Rightarrow> None
      | c # cs \<Rightarrow>
          (let k = length (takeWhile is_star cs) in
             if is_AZ c \<and> 1 \<le> k \<and> k < length cs \<and> is_AZ (cs ! k) then Some (k + 2) else None))"

definition match_r_left :: "string \<Rightarrow> nat option" where
  "match_r_left s =
     (let k = length (takeWhile is_star s) in
        if 1 \<le> k \<and> k < length s \<and> is_AZ (s ! k) then Some (k + 1) else None)"

definition match_r_right :: "string \<Rightarrow> nat option" where
  "match_r_right s =
     (case s of
        [] \<Rightarrow> None
      | c # cs \<Rightarrow>
          (let k = length (takeWhile is_star cs); rest = drop k cs in
             if is_AZ c \<and> 1 \<le> k \<and> (rest = [] \<or> rest = [CHR 0x0A]) then Some (k + 1) else None))"

text \<open>
  The three replacement strings. A match is never empty, so \<open>x[0]\<close> is \<open>take 1 x\<close>,
  \<open>x[-1]\<close> is the last character, \<open>x[1:-1]\<close> is \<open>butlast (tl x)\<close>.
\<close>

definition internal_replacement :: "string \<Rightarrow> string" where
  "internal_replacement x =
     take 1 x @ py_replace ''*'' ''N'' (butlast (tl x)) @ drop (length x - 1) x"

definition left_replacement :: "string \<Rightarrow> string" where
  "left_replacement g_left =
     py_replace ''*'' ''-'' (butlast g_left) @ drop (length g_left - 1) g_left"

definition right_replacement :: "string \<Rightarrow> string" where
  "right_replacement g_right = take 1 g_right @ py_replace ''*'' ''-'' (tl g_right)"

definition swap_in_gaps_Ns :: "string \<Rightarrow> string" where
  "swap_in_gaps_Ns seq =
     (let seq1 = fold (\<lambda>x s. py_replace x (internal_replacement x) s)
                   (py_findall match_r_internal seq) seq;
          seq2 = (case match_r_left seq1 of
                    None \<Rightarrow> seq1
                  | Some n \<Rightarrow>
                      (let g_left = take n seq1
                       in py_replace g_left (left_replacement g_left) seq1));
          seq3 = (case py_search match_r_right seq2 of
                    None \<Rightarrow> seq2
                  | Some g_right \<Rightarrow> py_replace g_right (right_replacement g_right) seq2)
      in seq3)"

text \<open>
  \<open>get_seq_from_block\<close>. A list comprehension stops at the first exception;
  \<open>zip(*rows)\<close> gives the columns up to the length of the shortest row; a read for which
  \<open>get_one_string\<close> returned \<open>None\<close> makes \<open>list(x)\<close> and \<open>re.findall\<close> raise
  \<open>TypeError\<close>.
\<close>

fun sequence_err :: "('e + 'a) list \<Rightarrow> 'e + 'a list" where
  "sequence_err [] = Inr []"
| "sequence_err (r # rs) =
     (case r of
        Inl e \<Rightarrow> Inl e
      | Inr x \<Rightarrow> (case sequence_err rs of Inl e \<Rightarrow> Inl e | Inr xs \<Rightarrow> Inr (x # xs)))"

definition py_zip :: "'a list list \<Rightarrow> 'a list list" where
  "py_zip rows =
     (case rows of
        [] \<Rightarrow> []
      | r # rs \<Rightarrow> map (\<lambda>i. map (\<lambda>row. row ! i) rows) [0 ..< fold min (map length rs) (length r)])"

definition the_string :: "string option \<Rightarrow> py_error + string" where
  "the_string x = (case x of None \<Rightarrow> Inl TypeError | Some s \<Rightarrow> Inr s)"

definition flatten_sites :: "string list \<Rightarrow> py_error + string" where
  "flatten_sites block_lines_sites_list =
     sequence_err (map check_and_get_flattened_site (py_zip block_lines_sites_list))"

definition get_seq_from_block :: "aln_info list \<Rightarrow> int \<Rightarrow> py_error + string" where
  "get_seq_from_block sam_block rlen =
     (case sequence_err (map (\<lambda>sam_line. get_one_string sam_line rlen) sam_block) of
        Inl e \<Rightarrow> Inl e
      | Inr block_lines_sites_list \<Rightarrow>
          if length block_lines_sites_list = 1
          then (case the_string (block_lines_sites_list ! 0) of
                  Inl e \<Rightarrow> Inl e
                | Inr s \<Rightarrow> Inr (swap_in_gaps_Ns s))
          else (case sequence_err (map the_string block_lines_sites_list) of
                  Inl e \<Rightarrow> Inl e
                | Inr rows \<Rightarrow>
                    (case flatten_sites rows of
                       Inl e \<Rightarrow> Inl e
                     | Inr seq_flat \<Rightarrow> Inr (swap_in_gaps_Ns seq_flat))))"

text \<open>
  For the statements about \<open>get_one_string\<close>: the reference bases an operation list
  consumes (the column \<open>Consumes_reference\<close> of the module's table), and the extensions
  the loop appends, in order, from a query cursor on.
\<close>

definition consumes_reference :: "char \<Rightarrow> bool" where
  "consumes_reference c = (c \<in> set ''MDN=X'')"

definition ref_consumed :: "(char \<times> nat) list \<Rightarrow> nat" where
  "ref_consumed ops = sum_list (map snd (filter (\<lambda>op1. consumes_reference (fst op1)) ops))"

fun extensions :: "string \<Rightarrow> (char \<times> nat) list \<Rightarrow> nat \<Rightarrow> nat \<Rightarrow> string" where
  "extensions seq [] q r = []"
| "extensions seq (op1 # ops) q r =
     (case lambda_dict (fst op1) of
        None \<Rightarrow> []
      | Some f \<Rightarrow>
          (case f q r (snd op1) seq of
             (new_q, new_r, extension) \<Rightarrow> extension @ extensions seq ops new_q new_r))"

section \<open>Dictionaries and counters\<close>

text \<open>
  A Python \<open>dict\<close> keeps its keys in insertion order: an association list with distinct
  keys. \<open>d[k] = v\<close> overwrites in place or appends; \<open>d[k].append(x)\<close> on a
  \<open>defaultdict(list)\<close> appends to the list at \<open>k\<close>, creating it when missing.
\<close>

type_synonym ('k, 'v) pydict = "('k \<times> 'v) list"

fun dict_set :: "'k \<Rightarrow> 'v \<Rightarrow> ('k, 'v) pydict \<Rightarrow> ('k, 'v) pydict" where
  "dict_set k v [] = [(k, v)]"
| "dict_set k v (p # ps) = (if fst p = k then (k, v) # ps else p # dict_set k v ps)"

definition dict_get :: "('k, 'v) pydict \<Rightarrow> 'k \<Rightarrow> py_error + 'v" where
  "dict_get d k = (case map_of d k of None \<Rightarrow> Inl KeyError | Some v \<Rightarrow> Inr v)"

definition dict_append :: "'k \<Rightarrow> 'v \<Rightarrow> ('k, 'v list) pydict \<Rightarrow> ('k, 'v list) pydict" where
  "dict_append k x d = dict_set k ((case map_of d k of None \<Rightarrow> [] | Some xs \<Rightarrow> xs) @ [x]) d"

definition dict_of_pairs :: "('k \<times> 'v) list \<Rightarrow> ('k, 'v) pydict" where
  "dict_of_pairs ps = fold (\<lambda>(k, v) d. dict_set k v d) ps []"

text \<open>
  \<open>collections.Counter\<close>: a dictionary of counts, a missing key counting 0;
  \<open>most_common()\<close> sorts by count, largest first, equal counts in insertion order.
\<close>

type_synonym 'k counter = "('k, nat) pydict"

definition counter_get :: "'k counter \<Rightarrow> 'k \<Rightarrow> nat" where
  "counter_get c k = (case map_of c k of None \<Rightarrow> 0 | Some n \<Rightarrow> n)"

definition Counter :: "'k list \<Rightarrow> 'k counter" where
  "Counter xs = fold (\<lambda>x c. dict_set x (counter_get c x + 1) c) xs []"

definition most_common :: "'k counter \<Rightarrow> ('k \<times> nat) list" where
  "most_common c = sort_key (\<lambda>p. - int (snd p)) c"

text \<open>\<open>xs[i]\<close> for a natural index.\<close>

definition nth_err :: "'a list \<Rightarrow> nat \<Rightarrow> py_error + 'a" where
  "nth_err xs i = (if i < length xs then Inr (xs ! i) else Inl IndexError)"

section \<open>Microreact anonymizer: the redacted adm2 column\<close>

text \<open>
  Lines 32 to 51 of \<open>anonymize_microreact\<close>, on the list of row dictionaries
  \<open>metadata_list\<close>: the tally of the adm2 values, the set of those seen fewer than five
  times, and the new field of every row.
\<close>

fun tally_adm2 ::
  "(string, string) pydict list \<Rightarrow> string counter \<Rightarrow> py_error + string counter" where
  "tally_adm2 [] admn2_counts = Inr admn2_counts"
| "tally_adm2 (entry # rest) admn2_counts =
     (case dict_get entry ''adm2'' of
        Inl e \<Rightarrow> Inl e
      | Inr location \<Rightarrow>
          (if location \<in> fst ` set admn2_counts
           then tally_adm2 rest (dict_set location (counter_get admn2_counts location + 1) admn2_counts)
           else tally_adm2 rest (dict_set location 1 admn2_counts)))"

definition anonymous_locations :: "string counter \<Rightarrow> string list" where
  "anonymous_locations admn2_counts =
     map fst (filter (\<lambda>p. counter_get admn2_counts (fst p) < 5) admn2_counts)"

fun redact_adm2 ::
  "string list \<Rightarrow> (string, string) pydict list \<Rightarrow> py_error + (string, string) pydict list" where
  "redact_adm2 anon [] = Inr []"
| "redact_adm2 anon (entry # rest) =
     (case dict_get entry ''adm2'' of
        Inl e \<Rightarrow> Inl e
      | Inr location \<Rightarrow>
          (case redact_adm2 anon rest of
             Inl e \<Rightarrow> Inl e
           | Inr rest' \<Rightarrow>
               Inr (dict_set ''anonymized_admn2'' (if location \<in> set anon then [] else location) entry
                    # rest')))"

definition anonymize_adm2 ::
  "(string, string) pydict list \<Rightarrow> py_error + (string, string) pydict list" where
  "anonymize_adm2 metadata_list =
     (case tally_adm2 metadata_list [] of
        Inl e \<Rightarrow> Inl e
      | Inr admn2_counts \<Rightarrow> redact_adm2 (anonymous_locations admn2_counts) metadata_list)"

text \<open>How often the adm2 value \<open>v\<close> occurs in the file.\<close>

definition adm2_occurrences :: "(string, string) pydict list \<Rightarrow> string \<Rightarrow> nat" where
  "adm2_occurrences metadata_list v =
     length (filter (\<lambda>entry. map_of entry ''adm2'' = Some v) metadata_list)"

section \<open>UK lineage curator\<close>

record taxon =
  id' :: string
  old_lineage :: string
  acctrans :: string

text \<open>
  \<open>make_taxon_objects\<close>, on the lines of the traits file: the header is skipped, a row
  counts when its second column is \<open>UK\<close>, and a row too short for a column it reads
  raises \<open>IndexError\<close>.
\<close>

definition is_newline :: "char \<Rightarrow> bool" where
  "is_newline c = (c = CHR 0x0A)"

definition taxon_of_line :: "string \<Rightarrow> py_error + taxon option" where
  "taxon_of_line l =
     (let toks = split_on (CHR '','') (strip_chars is_newline l) in
        case nth_err toks 1 of
          Inl e \<Rightarrow> Inl e
        | Inr country \<Rightarrow>
            if country = ''UK''
            then (case nth_err toks 2 of
                    Inl e \<Rightarrow> Inl e
                  | Inr intro_name \<Rightarrow>
                      (case nth_err toks 6 of
                         Inl e \<Rightarrow> Inl e
                       | Inr acc \<Rightarrow>
                           Inr (Some \<lparr>id' = toks ! 0, old_lineage = intro_name, acctrans = acc\<rparr>)))
            else Inr None)"

definition read_taxon_list :: "string list \<Rightarrow> py_error + taxon list" where
  "read_taxon_list traits_lines =
     (case traits_lines of
        [] \<Rightarrow> Inl StopIteration
      | header # rows \<Rightarrow>
          (case sequence_err (map taxon_of_line rows) of
             Inl e \<Rightarrow> Inl e
           | Inr ts \<Rightarrow> Inr (concat (map (\<lambda>t. case t of None \<Rightarrow> [] | Some x \<Rightarrow> [x]) ts))))"

definition acc_to_tax_of :: "taxon list \<Rightarrow> (string, taxon list) pydict" where
  "acc_to_tax_of taxon_list = fold (\<lambda>tax d. dict_append (acctrans tax) tax d) taxon_list []"

definition acc_to_poss_lins_of :: "(string, taxon list) pydict \<Rightarrow> (string, string list) pydict" where
  "acc_to_poss_lins_of acc_to_tax =
     fold (\<lambda>(k, v) d. fold (\<lambda>tax d. dict_append k (old_lineage tax) d) v d) acc_to_tax []"

definition lins_to_acc_of :: "(string, string list) pydict \<Rightarrow> (string, string list) pydict" where
  "lins_to_acc_of acc_to_poss_lins =
     fold (\<lambda>(k, v) d. fold (\<lambda>lineage d. dict_append lineage k d) v d) acc_to_poss_lins []"

definition counters_of :: "(string, string list) pydict \<Rightarrow> (string, string counter) pydict" where
  "counters_of d = fold (\<lambda>(k, v) out. dict_set k (Counter v) out) d []"

record taxon_tables =
  taxon_list :: "taxon list"
  acc_name_counts :: "(string, string counter) pydict"
  lin_acc_counts :: "(string, string counter) pydict"
  acc_to_tax :: "(string, taxon list) pydict"

definition make_taxon_objects :: "string list \<Rightarrow> py_error + taxon_tables" where
  "make_taxon_objects traits_lines =
     (case read_taxon_list traits_lines of
        Inl e \<Rightarrow> Inl e
      | Inr ts \<Rightarrow>
          (let a2t = acc_to_tax_of ts;
               a2l = acc_to_poss_lins_of a2t;
               l2a = lins_to_acc_of a2l
           in Inr \<lparr>taxon_list = ts, acc_name_counts = counters_of a2l,
                    lin_acc_counts = counters_of l2a, acc_to_tax = a2t\<rparr>))"

text \<open>
  \<open>rename_lineages\<close>. \<open>top_proposal\<close> is \<open>most_common(1)[0]\<close>; \<open>other_deserving_of\<close> is
  the inner loop over all clusters; \<open>outranked\<close> the loop over \<open>other_deserving\<close> with
  its running \<open>count\<close>; \<open>try_proposals\<close> the loop over the ranks \<open>i\<close>, its state the
  variable \<open>new_name\<close>.
\<close>

definition top_proposal :: "string counter \<Rightarrow> py_error + (string \<times> nat)" where
  "top_proposal poss_lins = (case most_common poss_lins of [] \<Rightarrow> Inl IndexError | p # ps \<Rightarrow> Inr p)"

fun other_deserving_of ::
  "string \<Rightarrow> string \<Rightarrow> (string, string counter) pydict \<Rightarrow> (string, nat) pydict
   \<Rightarrow> py_error + (string, nat) pydict" where
  "other_deserving_of acc query_lin [] other_deserving = Inr other_deserving"
| "other_deserving_of acc query_lin ((inner_acc, inner_poss_lins) # rest) other_deserving =
     (case top_proposal inner_poss_lins of
        Inl e \<Rightarrow> Inl e
      | Inr (test_against_other, n) \<Rightarrow>
          other_deserving_of acc query_lin rest
            (if query_lin = test_against_other \<and> acc \<noteq> inner_acc
             then dict_set inner_acc n other_deserving else other_deserving))"

definition outranked :: "(string, nat) pydict \<Rightarrow> nat \<Rightarrow> bool" where
  "outranked other_deserving count =
     fst (fold (\<lambda>(other_acc, other_count) (more_deserving, count).
                  if other_count > count then (True, other_count) else (more_deserving, count))
            other_deserving (False, count))"

fun try_proposals ::
  "string \<Rightarrow> (string, string counter) pydict \<Rightarrow> (string \<times> nat) list \<Rightarrow> string option
   \<Rightarrow> py_error + string option" where
  "try_proposals acc counts [] new_name = Inr new_name"
| "try_proposals acc counts ((query_lin, count) # rest) new_name =
     (if new_name \<noteq> None then try_proposals acc counts rest new_name
      else if query_lin = [] then try_proposals acc counts rest new_name
      else (case other_deserving_of acc query_lin counts [] of
              Inl e \<Rightarrow> Inl e
            | Inr other_deserving \<Rightarrow>
                if length other_deserving = 0 then try_proposals acc counts rest (Some query_lin)
                else if outranked other_deserving count then try_proposals acc counts rest None
                else try_proposals acc counts rest (Some query_lin)))"

text \<open>
  \<open>lin_acc_counts\<close> is a \<open>defaultdict(list)\<close>: a missing lineage reads as the empty
  list.
\<close>

definition claimants :: "(string, string counter) pydict \<Rightarrow> string \<Rightarrow> nat" where
  "claimants lin_counts lin = (case map_of lin_counts lin of None \<Rightarrow> 0 | Some c \<Rightarrow> length c)"

fun rename_loop ::
  "(string, string counter) pydict \<Rightarrow> (string, string counter) pydict
   \<Rightarrow> (string, string counter) pydict
   \<Rightarrow> (string, string list) pydict \<times> string list
   \<Rightarrow> py_error + ((string, string list) pydict \<times> string list)" where
  "rename_loop counts lin_counts [] st = Inr st"
| "rename_loop counts lin_counts ((acc, poss_lins) # rest) (acc_final_name_dict, new_names) =
     (case poss_lins of
        [] \<Rightarrow> Inl StopIteration
      | (relevant_lin, n) # others \<Rightarrow>
          if length poss_lins = 1 \<and> relevant_lin \<noteq> [] \<and> claimants lin_counts relevant_lin = 1
          then rename_loop counts lin_counts rest
                 (dict_append acc relevant_lin acc_final_name_dict, new_names)
          else if length poss_lins = 1 \<and> relevant_lin = []
          then rename_loop counts lin_counts rest
                 (dict_append acc relevant_lin acc_final_name_dict, new_names)
          else (case try_proposals acc counts (most_common poss_lins) None of
                  Inl e \<Rightarrow> Inl e
                | Inr r \<Rightarrow>
                    (let new_name = (case r of None \<Rightarrow> [] | Some x \<Rightarrow> x)
                     in rename_loop counts lin_counts rest
                          (dict_append acc new_name acc_final_name_dict, new_names @ [new_name]))))"

definition rename_lineages ::
  "(string, string counter) pydict \<Rightarrow> (string, string counter) pydict
   \<Rightarrow> py_error + ((string, string list) pydict \<times> string list)" where
  "rename_lineages counts lin_counts = rename_loop counts lin_counts counts ([], [])"

text \<open>
  \<open>deal_with_issues\<close>. \<open>problem_lins_of\<close> are the non-empty names that \<open>new_names\<close>
  holds more than once; \<open>tuples_for\<close> builds \<open>problem_lin[lin]\<close>; \<open>max_by_count\<close> is
  \<open>max(list_of_tuples, key=itemgetter(1))\<close>, the first of the largest; \<open>scan_options\<close>
  is the loop over the keys of \<open>acc_name_counts[contender]\<close>, which a \<open>Counter\<close> yields
  in insertion order. The variable \<open>new_name\<close> lives across the loops, unbound at first.
\<close>

definition problem_lins_of :: "string list \<Rightarrow> string list" where
  "problem_lins_of new_names =
     map fst (filter (\<lambda>p. snd p > 1 \<and> fst p \<noteq> []) (Counter new_names))"

fun tuples_for ::
  "string \<Rightarrow> string counter option \<Rightarrow> (string, string list) pydict \<Rightarrow> py_error + (string \<times> nat) list" where
  "tuples_for lin c [] = Inr []"
| "tuples_for lin c ((a, l) # rest) =
     (case l of
        [] \<Rightarrow> Inl IndexError
      | l0 # ls \<Rightarrow>
          if lin = l0
          then (case c of
                  None \<Rightarrow> Inl TypeError
                | Some cnt \<Rightarrow>
                    (case tuples_for lin c rest of
                       Inl e \<Rightarrow> Inl e
                     | Inr ts \<Rightarrow> Inr ((a, counter_get cnt a) # ts)))
          else tuples_for lin c rest)"

definition max_by_count :: "(string \<times> nat) list \<Rightarrow> py_error + (string \<times> nat)" where
  "max_by_count list_of_tuples =
     (case list_of_tuples of
        [] \<Rightarrow> Inl ValueError
      | x # xs \<Rightarrow> Inr (fold (\<lambda>y best. if snd y > snd best then y else best) xs x))"

fun scan_options :: "string list \<Rightarrow> string list \<Rightarrow> string option \<Rightarrow> string option" where
  "scan_options [] new_names new_name = new_name"
| "scan_options (other_option # rest) new_names new_name =
     (if other_option \<noteq> [] \<and> other_option \<notin> set new_names then Some other_option
      else scan_options rest new_names (Some []))"

definition options_of :: "(string, string counter) pydict \<Rightarrow> string \<Rightarrow> string list" where
  "options_of counts contender =
     (case map_of counts contender of None \<Rightarrow> [] | Some c \<Rightarrow> map fst c)"

fun reassign_contenders ::
  "string list \<Rightarrow> string \<Rightarrow> (string, string counter) pydict \<Rightarrow> string list
   \<Rightarrow> (string, string list) pydict \<times> string option
   \<Rightarrow> py_error + ((string, string list) pydict \<times> string option)" where
  "reassign_contenders [] winner counts new_names st = Inr st"
| "reassign_contenders (contender # rest) winner counts new_names (acc_final_name_dict, new_name) =
     (if contender = winner
      then reassign_contenders rest winner counts new_names (acc_final_name_dict, new_name)
      else (case scan_options (options_of counts contender) new_names new_name of
              None \<Rightarrow> Inl UnboundLocalError
            | Some name \<Rightarrow>
                reassign_contenders rest winner counts new_names
                  (dict_set contender [name] acc_final_name_dict, Some name)))"

fun sweep ::
  "(string \<times> (string \<times> nat) list) list \<Rightarrow> (string, string counter) pydict \<Rightarrow> string list
   \<Rightarrow> (string, string list) pydict \<times> string option
   \<Rightarrow> py_error + ((string, string list) pydict \<times> string option)" where
  "sweep [] counts new_names st = Inr st"
| "sweep ((uk_lineage, list_of_tuples) # rest) counts new_names st =
     (case max_by_count list_of_tuples of
        Inl e \<Rightarrow> Inl e
      | Inr w \<Rightarrow>
          (case reassign_contenders (map fst list_of_tuples) (fst w) counts new_names st of
             Inl e \<Rightarrow> Inl e
           | Inr st' \<Rightarrow> sweep rest counts new_names st'))"

definition deal_with_issues ::
  "(string, string list) pydict \<Rightarrow> string list \<Rightarrow> (string, string counter) pydict
   \<Rightarrow> (string, string counter) pydict \<Rightarrow> py_error + (string, string list) pydict" where
  "deal_with_issues acc_final_name_dict new_names lin_counts counts =
     (case sequence_err
             (map (\<lambda>lin. case tuples_for lin (map_of lin_counts lin) acc_final_name_dict of
                            Inl e \<Rightarrow> Inl e
                          | Inr ts \<Rightarrow> Inr (lin, ts))
                (problem_lins_of new_names)) of
        Inl e \<Rightarrow> Inl e
      | Inr problem_lin \<Rightarrow>
          (case sweep problem_lin counts new_names (acc_final_name_dict, None) of
             Inl e \<Rightarrow> Inl e
           | Inr st \<Rightarrow> Inr (fst st)))"

text \<open>
  \<open>int(s)\<close> for a string: blanks around it, a sign, decimal digits with single
  underscores between them. \<open>str(n)\<close> for an integer.
\<close>

fun no_double_underscore :: "string \<Rightarrow> bool" where
  "no_double_underscore (a # b # cs) =
     (\<not> (a = CHR ''_'' \<and> b = CHR ''_'') \<and> no_double_underscore (b # cs))"
| "no_double_underscore cs = True"

definition valid_int_body :: "string \<Rightarrow> bool" where
  "valid_int_body b =
     (b \<noteq> [] \<and> is_digit (hd b) \<and> is_digit (last b)
      \<and> list_all (\<lambda>c. is_digit c \<or> c = CHR ''_'') b \<and> no_double_underscore b)"

definition py_int :: "string \<Rightarrow> py_error + int" where
  "py_int s =
     (let t = strip s;
          signed = (take 1 t = ''-'' \<or> take 1 t = ''+'');
          body = (if signed then tl t else t)
      in if valid_int_body body
         then Inr ((if take 1 t = ''-'' then - 1 else 1) * int (nat_of_digits (filter is_digit body)))
         else Inl ValueError)"

function str_nat :: "nat \<Rightarrow> string" where
  "str_nat n =
     (if n < 10 then [''0123456789'' ! n]
      else str_nat (n div 10) @ [''0123456789'' ! (n mod 10)])"
  by pat_completeness auto
termination
  by (relation "measure (\<lambda>n. n)") auto

definition str_int :: "int \<Rightarrow> string" where
  "str_int i = (if i < 0 then CHR ''-'' # str_nat (nat (- i)) else str_nat (nat i))"

text \<open>
  \<open>name_new_lineages\<close>. \<open>used_names_of\<close> reads the numbers of the labels in use;
  \<open>mint_loop\<close> is the second loop, its state \<open>usable_names\<close>, \<open>full_list\<close> and
  \<open>acc_final\<close>.
\<close>

definition is_U_or_K :: "char \<Rightarrow> bool" where
  "is_U_or_K c = (c = CHR ''U'' \<or> c = CHR ''K'')"

fun used_names_of :: "(string, string list) pydict \<Rightarrow> py_error + int list" where
  "used_names_of [] = Inr []"
| "used_names_of ((key, val) # rest) =
     (case val of
        [] \<Rightarrow> Inl IndexError
      | v0 # vs \<Rightarrow>
          if v0 \<noteq> []
          then (case py_int (lstrip_chars is_U_or_K v0) of
                  Inl e \<Rightarrow> Inl e
                | Inr n \<Rightarrow> (case used_names_of rest of Inl e \<Rightarrow> Inl e | Inr ns \<Rightarrow> Inr (n # ns)))
          else used_names_of rest)"

fun mint_loop ::
  "(string, string list) pydict \<Rightarrow> int list \<times> int list \<times> (string, string) pydict
   \<Rightarrow> py_error + (int list \<times> int list \<times> (string, string) pydict)" where
  "mint_loop [] st = Inr st"
| "mint_loop ((acc, lin) # rest) (usable_names, full_list, acc_final) =
     (case lin of
        [] \<Rightarrow> Inl IndexError
      | l0 # ls \<Rightarrow>
          if l0 = []
          then (case usable_names of
                  new_name_prep # us \<Rightarrow>
                    mint_loop rest
                      (remove1 new_name_prep usable_names, full_list,
                       dict_set acc (''UK'' @ str_int new_name_prep) acc_final)
                | [] \<Rightarrow>
                    (let new_name_prep = int (length full_list) + 1
                     in mint_loop rest
                          (usable_names, full_list @ [new_name_prep],
                           dict_set acc (''UK'' @ str_int new_name_prep) acc_final)))
          else mint_loop rest (usable_names, full_list, dict_set acc l0 acc_final))"

definition name_new_lineages ::
  "(string, string list) pydict \<Rightarrow> py_error + ((string, string) pydict \<times> int counter)" where
  "name_new_lineages acc_final_name_dict =
     (case used_names_of acc_final_name_dict of
        Inl e \<Rightarrow> Inl e
      | Inr used_names \<Rightarrow>
          (let test_counter = Counter (sort used_names);
               full_list = map int [1 ..< length used_names + 1];
               usable_names = filter (\<lambda>i. i \<notin> set used_names) full_list
           in case mint_loop acc_final_name_dict (usable_names, full_list, []) of
                Inl e \<Rightarrow> Inl e
              | Inr (u, f, acc_final) \<Rightarrow> Inr (acc_final, test_counter)))"

text \<open>
  \<open>curate_lineages\<close> up to its two integrity checks: the final label of every cluster,
  or the exception that ends the run.
\<close>

definition curate_lineages :: "string list \<Rightarrow> py_error + (string, string) pydict" where
  "curate_lineages traits_lines =
     (case make_taxon_objects traits_lines of
        Inl e \<Rightarrow> Inl e
      | Inr t \<Rightarrow>
          (case rename_lineages (acc_name_counts t) (lin_acc_counts t) of
             Inl e \<Rightarrow> Inl e
           | Inr (d0, new_names) \<Rightarrow>
               (case deal_with_issues d0 new_names (lin_acc_counts t) (acc_name_counts t) of
                  Inl e \<Rightarrow> Inl e
                | Inr acc_final_name_dict \<Rightarrow>
                    (case name_new_lineages acc_final_name_dict of
                       Inl e \<Rightarrow> Inl e
                     | Inr (acc_final, test_counter) \<Rightarrow>
                         if \<not> list_all (\<lambda>p. snd p = 1) test_counter then Inl AssertionError
                         else if \<not> list_all (\<lambda>p. length (snd p) = 1) acc_final_name_dict
                         then Inl AssertionError
                         else Inr acc_final))))"

section \<open>GISAID JSON to metadata converter\<close>

definition fields_gisaid :: "string list" where
  "fields_gisaid =
     [''covv_accession_id'', ''covv_virus_name'', ''covv_location'', ''covv_collection_date'',
      ''covv_add_host_info'', ''covv_assembly_method'', ''covv_gender'', ''covv_host'',
      ''covv_passage'', ''covv_patient_age'', ''covv_seq_technology'',
      ''covv_specimen'', ''covv_subm_date'']"

definition fields_edin :: "string list" where
  "fields_edin =
     [''edin_admin_0'', ''edin_admin_1'', ''edin_admin_2'',
      ''edin_lineage'', ''edin_travel'',
      ''edin_omitted'', ''edin_date_stamp'', ''edin_flag'']"

definition fields :: "string list" where
  "fields = [''edin_epi_week'', ''edin_annotation'']"

text \<open>
  \<open>fix_gisaid_json_dict\<close>, on the object of one JSON line with every value already
  rendered by \<open>str\<close>, and \<open>expand_dict\<close>.
\<close>

definition fix_gisaid_json_dict :: "(string, string) pydict \<Rightarrow> (string, string) pydict" where
  "fix_gisaid_json_dict gisaid_json_dict =
     fold (\<lambda>(x, y) newDict. dict_set x (py_replace '','' [] y) newDict) gisaid_json_dict []"

definition add_missing :: "string list \<Rightarrow> (string, string) pydict \<Rightarrow> (string, string) pydict" where
  "add_missing fields_list d =
     fold (\<lambda>x d. if map_of d x = None then dict_set x [] d else d) fields_list d"

definition expand_dict ::
  "(string, string) pydict \<Rightarrow> string list \<Rightarrow> string list \<Rightarrow> (string, string) pydict" where
  "expand_dict d fields_list_required fields_list_optional =
     add_missing fields_list_optional (add_missing fields_list_required d)"

text \<open>
  \<open>get_admin_levels_from_json_dict\<close>. Its second parameter is named \<open>warnings\<close> and
  defaults to \<open>True\<close>, so inside the function the name is that argument and not the
  module: \<open>warnings.warn\<close> is an attribute of whatever was passed. \<open>warnings_arg\<close> are
  the values it can take here: a boolean, or the module itself. The country-name lookup
  of \<open>pycountry\<close> is the parameter \<open>lookup\<close>: true when the lookup finds the name, false
  when it raises \<open>LookupError\<close>.
\<close>

datatype warnings_arg = Flag bool | Module

definition truthy :: "warnings_arg \<Rightarrow> bool" where
  "truthy w = (case w of Flag b \<Rightarrow> b | Module \<Rightarrow> True)"

definition location_levels :: "string \<Rightarrow> string \<times> string \<times> string" where
  "location_levels covv_location =
     (let split = map strip (split_on (CHR ''/'') covv_location);
          location_strings = split @ replicate (4 - length split) [];
          country = location_strings ! 1;
          subdivision = location_strings ! 2;
          subsubdivision = location_strings ! 3;
          uk = (country \<in> set [''England'', ''Northern Ireland'', ''Scotland'', ''Wales'']);
          country1 = (if uk then ''United Kingdom'' else country);
          subdivision1 = (if uk then location_strings ! 1 else subdivision);
          subsubdivision1 = (if uk then location_strings ! 2 else subsubdivision);
          alaska = (country1 \<in> set [''Alaska''])
      in (if alaska then ''USA'' else country1,
          if alaska then location_strings ! 1 else subdivision1,
          if alaska then location_strings ! 2 else subsubdivision1))"

definition known_exceptions :: "string list" where
  "known_exceptions =
     [''Iran'', ''South Korea'', ''Russia'', ''Korea'', ''Democratic Republic of the Congo'']"

definition append_flag :: "string \<Rightarrow> (string, string) pydict \<Rightarrow> py_error + (string, string) pydict" where
  "append_flag code d =
     (case dict_get d ''edin_flag'' of
        Inl e \<Rightarrow> Inl e
      | Inr flag \<Rightarrow>
          if length flag = 0 then Inr (dict_set ''edin_flag'' code d)
          else Inr (dict_set ''edin_flag'' (flag @ '':'' @ code) d))"

definition check_country ::
  "(string \<Rightarrow> bool) \<Rightarrow> warnings_arg \<Rightarrow> string \<Rightarrow> (string, string) pydict
   \<Rightarrow> py_error + (string, string) pydict" where
  "check_country lookup warnings country gisaid_json_dict =
     (if truthy warnings
      then (if list_all (\<lambda>x. country \<noteq> x) known_exceptions
            then (if lookup country then Inr gisaid_json_dict
                  else (case warnings of
                          Flag b \<Rightarrow> Inl AttributeError
                        | Module \<Rightarrow>
                            (case dict_get gisaid_json_dict ''covv_accession_id'' of
                               Inl e \<Rightarrow> Inl e
                             | Inr acc_id \<Rightarrow> append_flag ''check_country'' gisaid_json_dict)))
            else Inr gisaid_json_dict)
      else Inr gisaid_json_dict)"

definition final_country :: "string \<Rightarrow> string" where
  "final_country country =
     (let c1 = (if country = ''United Kingdom'' then ''UK'' else country);
          c2 = (if c1 = ''Korea'' then ''South Korea'' else c1)
      in if c2 = ''Democratic Republic of the Congo'' then ''DRC'' else c2)"

definition get_admin_levels_from_json_dict ::
  "(string \<Rightarrow> bool) \<Rightarrow> (string, string) pydict \<Rightarrow> warnings_arg
   \<Rightarrow> py_error + (string, string) pydict" where
  "get_admin_levels_from_json_dict lookup gisaid_json_dict warnings =
     (case dict_get gisaid_json_dict ''covv_location'' of
        Inl e \<Rightarrow> Inl e
      | Inr covv_location \<Rightarrow>
          (case location_levels covv_location of
             (country, subdivision, subsubdivision) \<Rightarrow>
               (case check_country lookup warnings country gisaid_json_dict of
                  Inl e \<Rightarrow> Inl e
                | Inr d \<Rightarrow>
                    Inr (dict_set ''edin_admin_2'' subsubdivision
                          (dict_set ''edin_admin_1'' subdivision
                            (dict_set ''edin_admin_0'' (final_country country) d))))))"

text \<open>
  \<open>check_gisaid_date\<close>: \<open>re.search\<close> for \<open>\d{4}-\d{2}-\d{2}\<close> anywhere in the date.
\<close>

definition match_date :: "string \<Rightarrow> nat option" where
  "match_date s =
     (if 10 \<le> length s \<and> list_all is_digit (take 4 s) \<and> s ! 4 = CHR ''-''
         \<and> list_all is_digit (take 2 (drop 5 s)) \<and> s ! 7 = CHR ''-''
         \<and> list_all is_digit (take 2 (drop 8 s))
      then Some 10 else None)"

definition check_gisaid_date :: "(string, string) pydict \<Rightarrow> py_error + (string, string) pydict" where
  "check_gisaid_date d =
     (case dict_get d ''covv_collection_date'' of
        Inl e \<Rightarrow> Inl e
      | Inr date \<Rightarrow>
          if py_search match_date date = None then append_flag ''check_date'' d else Inr d)"

text \<open>
  \<open>update_edin_lineage_field\<close> (the lineage table maps an ID to its lineage),
  \<open>update_edin_omitted_field\<close> (\<open>omit_set\<close> is \<open>False\<close>, here \<open>None\<close>, or a set) and
  \<open>update_edin_date_stamp_field\<close> (the date of the run is the parameter \<open>today\<close>).
\<close>

definition update_edin_lineage_field ::
  "(string, string) pydict \<Rightarrow> (string, string) pydict \<Rightarrow> py_error + (string, string) pydict" where
  "update_edin_lineage_field lineage_dict d =
     (case dict_get d ''covv_accession_id'' of
        Inl e \<Rightarrow> Inl e
      | Inr ID \<Rightarrow>
          (case map_of lineage_dict ID of
             Some lineage \<Rightarrow> Inr (dict_set ''edin_lineage'' lineage d)
           | None \<Rightarrow>
               (case dict_get d ''covv_virus_name'' of
                  Inl e \<Rightarrow> Inl e
                | Inr name \<Rightarrow>
                    (case nth_err (split_on (CHR ''/'') name) 2 of
                       Inl e \<Rightarrow> Inl e
                     | Inr ID2 \<Rightarrow>
                         (case map_of lineage_dict ID2 of
                            Some lineage \<Rightarrow> Inr (dict_set ''edin_lineage'' lineage d)
                          | None \<Rightarrow> Inr d)))))"

definition update_edin_omitted_field ::
  "string list option \<Rightarrow> (string, string) pydict \<Rightarrow> py_error + (string, string) pydict" where
  "update_edin_omitted_field omit_set d =
     (case omit_set of
        None \<Rightarrow> Inr d
      | Some ids \<Rightarrow>
          if ids = [] then Inr d
          else (case dict_get d ''covv_accession_id'' of
                  Inl e \<Rightarrow> Inl e
                | Inr ID \<Rightarrow> if ID \<in> set ids then Inr (dict_set ''edin_omitted'' ''True'' d) else Inr d))"

definition update_edin_date_stamp_field ::
  "string \<Rightarrow> (string, string) pydict \<Rightarrow> py_error + (string, string) pydict" where
  "update_edin_date_stamp_field today d = Inr (dict_set ''edin_date_stamp'' today d)"

text \<open>
  Reading the registry and the dump. A registry line is stripped and split at the commas;
  a row whose length differs from the header's reaches \<open>csv_file.csv\<close>, an attribute a
  path string does not have. Both readers return the IDs in file order and the
  dictionary of the records by ID, a later record replacing an earlier one of the same
  ID.
\<close>

definition record_of_line ::
  "string list \<Rightarrow> string list \<Rightarrow> string list \<Rightarrow> string \<Rightarrow> py_error + (string, string) pydict" where
  "record_of_line keys fields_list_required fields_list_optional line =
     (let l = split_on (CHR '','') (strip line) in
        if length l \<noteq> length keys then Inl AttributeError
        else Inr (expand_dict (dict_of_pairs (zip keys l)) fields_list_required fields_list_optional))"

fun csv_rows ::
  "string list \<Rightarrow> string list \<Rightarrow> string list \<Rightarrow> string list
   \<Rightarrow> string list \<times> (string, (string, string) pydict) pydict
   \<Rightarrow> py_error + (string list \<times> (string, (string, string) pydict) pydict)" where
  "csv_rows keys req opt [] st = Inr st"
| "csv_rows keys req opt (line # rest) (record_order, old_records) =
     (case record_of_line keys req opt line of
        Inl e \<Rightarrow> Inl e
      | Inr d \<Rightarrow>
          (case dict_get d ''covv_accession_id'' of
             Inl e \<Rightarrow> Inl e
           | Inr ID \<Rightarrow> csv_rows keys req opt rest (record_order @ [ID], dict_set ID d old_records)))"

definition get_csv_order_and_record_dict ::
  "string list \<Rightarrow> string list \<Rightarrow> string list
   \<Rightarrow> py_error + (string list \<times> (string, (string, string) pydict) pydict)" where
  "get_csv_order_and_record_dict csv_lines fields_list_required fields_list_optional =
     (case csv_lines of
        [] \<Rightarrow> Inr ([], [])
      | first # rest \<Rightarrow>
          csv_rows (split_on (CHR '','') (strip first)) fields_list_required fields_list_optional
            rest ([], []))"

fun json_rows ::
  "string list \<Rightarrow> string list \<Rightarrow> (string, string) pydict list
   \<Rightarrow> string list \<times> (string, (string, string) pydict) pydict
   \<Rightarrow> py_error + (string list \<times> (string, (string, string) pydict) pydict)" where
  "json_rows req opt [] st = Inr st"
| "json_rows req opt (jsonObj # rest) (record_order, all_records) =
     (let d = expand_dict (fix_gisaid_json_dict jsonObj) req opt in
        case dict_get d ''covv_accession_id'' of
          Inl e \<Rightarrow> Inl e
        | Inr ID \<Rightarrow> json_rows req opt rest (record_order @ [ID], dict_set ID d all_records))"

definition get_json_order_and_record_dict ::
  "(string, string) pydict list \<Rightarrow> string list \<Rightarrow> string list
   \<Rightarrow> py_error + (string list \<times> (string, (string, string) pydict) pydict)" where
  "get_json_order_and_record_dict json_objs fields_list_required fields_list_optional =
     json_rows fields_list_required fields_list_optional json_objs ([], [])"

text \<open>\<open>get_one_line\<close> and \<open>write_output\<close>: the lines written, in order.\<close>

definition get_one_line :: "(string, string) pydict \<Rightarrow> string list \<Rightarrow> py_error + string" where
  "get_one_line d fields_list =
     (case sequence_err (map (dict_get d) fields_list) of
        Inl e \<Rightarrow> Inl e
      | Inr vals \<Rightarrow> Inr (join '','' vals @ [CHR 0x0A]))"

definition line_of ::
  "(string, (string, string) pydict) pydict \<Rightarrow> string list \<Rightarrow> string \<Rightarrow> py_error + string" where
  "line_of records_dict fields_list record =
     (case dict_get records_dict record of
        Inl e \<Rightarrow> Inl e
      | Inr d \<Rightarrow> get_one_line d fields_list)"

definition write_output ::
  "string list \<Rightarrow> (string, (string, string) pydict) pydict
   \<Rightarrow> string list \<Rightarrow> (string, (string, string) pydict) pydict
   \<Rightarrow> string list \<Rightarrow> py_error + string list" where
  "write_output new_records_list new_records_dict old_records_list old_records_dict fields_list =
     (case sequence_err (map (line_of old_records_dict fields_list) old_records_list) of
        Inl e \<Rightarrow> Inl e
      | Inr old_lines \<Rightarrow>
          (case sequence_err (map (line_of new_records_dict fields_list) new_records_list) of
             Inl e \<Rightarrow> Inl e
           | Inr new_lines \<Rightarrow>
               Inr ((join '','' fields_list @ [CHR 0x0A]) # old_lines @ new_lines)))"

text \<open>
  \<open>gisaid_json_2_metadata\<close>. Every enrichment step is a dictionary comprehension over
  the keys of \<open>new_records_dict\<close> that passes \<open>all_records_dict[x]\<close> to a function which
  changes that dictionary in place and returns it: \<open>apply_step\<close> threads
  \<open>all_records_dict\<close> through the keys and stops at the first exception.
  \<open>get_travel_history\<close> belongs to \<open>datafunk.travel_history\<close>, which is not among the
  sources: it is the parameter \<open>travel\<close>, a function on one record like its siblings.
  \<open>extend_fields\<close> is the loop that adds the registry's extra columns to \<open>fields\<close>.
\<close>

fun apply_step ::
  "((string, string) pydict \<Rightarrow> py_error + (string, string) pydict) \<Rightarrow> string list
   \<Rightarrow> (string, (string, string) pydict) pydict
   \<Rightarrow> py_error + (string, (string, string) pydict) pydict" where
  "apply_step f [] all_records_dict = Inr all_records_dict"
| "apply_step f (x # xs) all_records_dict =
     (case dict_get all_records_dict x of
        Inl e \<Rightarrow> Inl e
      | Inr d \<Rightarrow>
          (case f d of
             Inl e \<Rightarrow> Inl e
           | Inr d' \<Rightarrow> apply_step f xs (dict_set x d' all_records_dict)))"

fun apply_steps ::
  "((string, string) pydict \<Rightarrow> py_error + (string, string) pydict) list \<Rightarrow> string list
   \<Rightarrow> (string, (string, string) pydict) pydict
   \<Rightarrow> py_error + (string, (string, string) pydict) pydict" where
  "apply_steps [] keys all_records_dict = Inr all_records_dict"
| "apply_steps (f # fs) keys all_records_dict =
     (case apply_step f keys all_records_dict of
        Inl e \<Rightarrow> Inl e
      | Inr d \<Rightarrow> apply_steps fs keys d)"

definition extend_fields :: "string list \<Rightarrow> string list \<Rightarrow> string list" where
  "extend_fields csv_header flds =
     fold (\<lambda>x fs. if x \<notin> set (fields_gisaid @ fields_edin) \<and> x \<notin> set fs then fs @ [x] else fs)
       csv_header flds"

definition read_registry ::
  "string list option
   \<Rightarrow> py_error + (string list \<times> string list \<times> (string, (string, string) pydict) pydict)" where
  "read_registry args_csv =
     (case args_csv of
        None \<Rightarrow> Inr (fields, [], [])
      | Some csv_lines \<Rightarrow>
          (case csv_lines of
             [] \<Rightarrow> Inl StopIteration
           | first # rest \<Rightarrow>
               (let csv_header = split_on (CHR '','') (strip first) in
                  if \<not> list_all (\<lambda>x. x \<in> set csv_header) (fields_gisaid @ fields_edin)
                  then Inl SystemExit
                  else (let flds = extend_fields csv_header fields in
                          case get_csv_order_and_record_dict csv_lines
                                 (fields_gisaid @ fields_edin) flds of
                            Inl e \<Rightarrow> Inl e
                          | Inr (old_records_list, old_records_dict) \<Rightarrow>
                              Inr (flds, old_records_list, old_records_dict)))))"

definition enrichment_steps ::
  "string \<Rightarrow> (string \<Rightarrow> bool) \<Rightarrow> ((string, string) pydict \<Rightarrow> py_error + (string, string) pydict)
   \<Rightarrow> string list option \<Rightarrow> (string, string) pydict option
   \<Rightarrow> ((string, string) pydict \<Rightarrow> py_error + (string, string) pydict) list" where
  "enrichment_steps today lookup travel omitted_IDs lineages =
     [update_edin_omitted_field omitted_IDs,
      update_edin_date_stamp_field today,
      (\<lambda>d. get_admin_levels_from_json_dict lookup d (Flag True)),
      check_gisaid_date,
      travel]
     @ (case lineages of None \<Rightarrow> [] | Some t \<Rightarrow> [update_edin_lineage_field t])"

definition new_keys :: "string list \<Rightarrow> string list" where
  "new_keys new_records_list = map fst (fold (\<lambda>x d. dict_set x () d) new_records_list [])"

definition gisaid_json_2_metadata ::
  "(string, string) pydict list \<Rightarrow> string \<Rightarrow> (string \<Rightarrow> bool)
   \<Rightarrow> ((string, string) pydict \<Rightarrow> py_error + (string, string) pydict)
   \<Rightarrow> string list option \<Rightarrow> string list option \<Rightarrow> (string, string) pydict option
   \<Rightarrow> py_error + string list" where
  "gisaid_json_2_metadata json_objs today lookup travel args_csv omitted_IDs lineages =
     (case read_registry args_csv of
        Inl e \<Rightarrow> Inl e
      | Inr (flds, old_records_list, old_records_dict) \<Rightarrow>
          (case get_json_order_and_record_dict json_objs (fields_gisaid @ fields_edin) flds of
             Inl e \<Rightarrow> Inl e
           | Inr (all_records_list, all_records_dict) \<Rightarrow>
               (let new_records_list = filter (\<lambda>x. x \<notin> set old_records_list) all_records_list
                in case apply_steps (enrichment_steps today lookup travel omitted_IDs lineages)
                          (new_keys new_records_list) all_records_dict of
                     Inl e \<Rightarrow> Inl e
                   | Inr new_records_dict \<Rightarrow>
                       write_output new_records_list new_records_dict
                         old_records_list old_records_dict
                         (fields_edin @ flds @ fields_gisaid))))"

text \<open>
  For the statements about the converter: the record the dump reader stores for one JSON
  line and the record the registry reader stores for one registry line, the accession ID
  of a record, what the enrichment steps make of one record when they are applied one
  after the other, and the columns of the output. In the worked examples the lookup
  service is \<open>lookup_in names\<close>, which finds the listed names, and the travel-history
  step is \<open>no_travel\<close>, which leaves a record as it is.
\<close>

definition json_record :: "string list \<Rightarrow> (string, string) pydict \<Rightarrow> (string, string) pydict" where
  "json_record flds jsonObj = expand_dict (fix_gisaid_json_dict jsonObj) (fields_gisaid @ fields_edin) flds"

definition csv_record :: "string list \<Rightarrow> string list \<Rightarrow> string \<Rightarrow> (string, string) pydict" where
  "csv_record keys flds line =
     expand_dict (dict_of_pairs (zip keys (split_on (CHR '','') (strip line))))
       (fields_gisaid @ fields_edin) flds"

definition accession_of :: "(string, string) pydict \<Rightarrow> string" where
  "accession_of d = (case map_of d ''covv_accession_id'' of None \<Rightarrow> [] | Some x \<Rightarrow> x)"

fun enrich ::
  "((string, string) pydict \<Rightarrow> py_error + (string, string) pydict) list
   \<Rightarrow> (string, string) pydict \<Rightarrow> py_error + (string, string) pydict" where
  "enrich [] d = Inr d"
| "enrich (f # fs) d = (case f d of Inl e \<Rightarrow> Inl e | Inr d' \<Rightarrow> enrich fs d')"

definition output_fields :: "string list \<Rightarrow> string list" where
  "output_fields flds = fields_edin @ flds @ fields_gisaid"

definition lookup_in :: "string list \<Rightarrow> string \<Rightarrow> bool" where
  "lookup_in names country = (country \<in> set names)"

definition no_travel :: "(string, string) pydict \<Rightarrow> py_error + (string, string) pydict" where
  "no_travel d = Inr d"

section \<open>Properties of the SAM to FASTA builder\<close>

lemma lambda_dict_cases:
  assumes "c \<in> set ''MIDNSHP=X''"
  obtains (copy) "lambda_dict c = Some (\<lambda>q r n seq. (q + n, r + n, take n (drop q seq)))"
                 "consumes_reference c"
        | (skip) "lambda_dict c = Some (\<lambda>q r n seq. (q + n, r, []))" "\<not> consumes_reference c"
        | (gap) "lambda_dict c = Some (\<lambda>q r n seq. (q, r + n, replicate n (CHR ''-'')))"
                "consumes_reference c"
        | (none) "lambda_dict c = Some (\<lambda>q r n seq. (q, r, []))" "\<not> consumes_reference c"
  using assms by (auto simp: lambda_dict_def consumes_reference_def)

lemma ref_consumed_Cons:
  "ref_consumed (op1 # ops) = (if consumes_reference (fst op1) then snd op1 else 0) + ref_consumed ops"
  by (simp add: ref_consumed_def)

lemma ref_consumed_Nil: "ref_consumed [] = 0"
  by (simp add: ref_consumed_def)

text \<open>The loop returns, advances the reference cursor by what the operations consume, and
  has appended exactly their extensions.\<close>

lemma apply_operations_extensions:
  assumes "\<forall>op1 \<in> set ops. fst op1 \<in> set ''MIDNSHP=X''"
  shows "\<exists>q'. apply_operations seq ops (q, r, s)
                = Inr (q', r + ref_consumed ops, s @ extensions seq ops q r)"
  using assms
proof (induction ops arbitrary: q r s)
  case Nil
  then show ?case by (simp add: ref_consumed_Nil)
next
  case (Cons op1 ops)
  have known: "fst op1 \<in> set ''MIDNSHP=X''"
    and rest: "\<forall>x \<in> set ops. fst x \<in> set ''MIDNSHP=X''"
    using Cons.prems by simp_all
  from known show ?case
  proof (cases rule: lambda_dict_cases)
    case copy
    with Cons.IH[OF rest, of "q + snd op1" "r + snd op1" "s @ take (snd op1) (drop q seq)"]
    show ?thesis by (simp add: ref_consumed_Cons add.assoc)
  next
    case skip
    with Cons.IH[OF rest, of "q + snd op1" r s]
    show ?thesis by (simp add: ref_consumed_Cons)
  next
    case gap
    with Cons.IH[OF rest, of q "r + snd op1" "s @ replicate (snd op1) (CHR ''-'')"]
    show ?thesis by (simp add: ref_consumed_Cons add.assoc)
  next
    case none
    with Cons.IH[OF rest, of q r s]
    show ?thesis by (simp add: ref_consumed_Cons)
  qed
qed

text \<open>An extension is never longer than the reference bases its operation consumes (SEQ
  may be shorter than the CIGAR says; a slice past its end is cut).\<close>

lemma length_extensions:
  assumes "\<forall>op1 \<in> set ops. fst op1 \<in> set ''MIDNSHP=X''"
  shows "length (extensions seq ops q r) \<le> ref_consumed ops"
  using assms
proof (induction ops arbitrary: q r)
  case Nil
  then show ?case by simp
next
  case (Cons op1 ops)
  have known: "fst op1 \<in> set ''MIDNSHP=X''"
    and rest: "\<forall>x \<in> set ops. fst x \<in> set ''MIDNSHP=X''"
    using Cons.prems by simp_all
  from known show ?case
  proof (cases rule: lambda_dict_cases)
    case copy
    with Cons.IH[OF rest, of "q + snd op1" "r + snd op1"]
    show ?thesis by (simp add: ref_consumed_Cons)
  next
    case skip
    with Cons.IH[OF rest, of "q + snd op1" r]
    show ?thesis by (simp add: ref_consumed_Cons)
  next
    case gap
    with Cons.IH[OF rest, of q "r + snd op1"]
    show ?thesis by (simp add: ref_consumed_Cons)
  next
    case none
    with Cons.IH[OF rest, of q r]
    show ?thesis by (simp add: ref_consumed_Cons)
  qed
qed

text \<open>
  For the operations that \<open>get_sam_cigar_operations\<close> reads from the CIGAR string: when
  POS is at least 0, every operation is a key of \<open>lambda_dict\<close> and the operations
  consume, together with POS, at most \<open>rlen\<close> reference bases, \<open>get_one_string\<close> returns
  a string of exactly \<open>rlen\<close> characters: POS sentinels, what the loop appended for those
  operations, and sentinels up to \<open>rlen\<close>.
\<close>

lemma get_one_string_length:
  assumes pos: "0 \<le> POS l"
    and known: "\<forall>op1 \<in> set (get_sam_cigar_operations (CIGAR l)). fst op1 \<in> set ''MIDNSHP=X''"
    and fits: "POS l + int (ref_consumed (get_sam_cigar_operations (CIGAR l))) \<le> rlen"
  shows "let body = extensions (SEQ l) (get_sam_cigar_operations (CIGAR l)) 0 (nat (POS l));
             s = replicate (nat (POS l)) (CHR ''*'') @ body
                 @ replicate (nat rlen - nat (POS l) - length body) (CHR ''*'')
         in get_one_string l rlen = Inr (Some s) \<and> int (length s) = rlen"
proof -
  define ops where "ops = get_sam_cigar_operations (CIGAR l)"
  define body where "body = extensions (SEQ l) ops 0 (nat (POS l))"
  have len: "length body \<le> ref_consumed ops"
    unfolding body_def using known length_extensions ops_def by blast
  obtain q' where run:
    "apply_operations (SEQ l) ops (0, nat (POS l), replicate (nat (POS l)) (CHR ''*''))
      = Inr (q', nat (POS l) + ref_consumed ops, replicate (nat (POS l)) (CHR ''*'') @ body)"
    unfolding body_def
    using apply_operations_extensions[of ops "SEQ l" 0 "nat (POS l)"] known ops_def
    by blast
  have bound: "int (nat (POS l) + length body) \<le> rlen"
    using len fits pos ops_def by simp
  have pad: "nat (rlen - int (length (replicate (nat (POS l)) (CHR ''*'') @ body)))
      = nat rlen - nat (POS l) - length body"
    using pos by (simp add: nat_diff_distrib')
  have "get_one_string l rlen = Inr (Some (replicate (nat (POS l)) (CHR ''*'') @ body
      @ replicate (nat rlen - nat (POS l) - length body) (CHR ''*'')))"
    using pos run pad by (simp add: get_one_string_def ops_def[symmetric] Let_def)
  moreover have "int (length (replicate (nat (POS l)) (CHR ''*'') @ body
      @ replicate (nat rlen - nat (POS l) - length body) (CHR ''*''))) = rlen"
    using bound pos by simp
  ultimately show ?thesis
    by (simp add: Let_def body_def ops_def)
qed

text \<open>The read of the specification's example: CIGAR 3M2D4M, seven bases, POS 10,
  reference length 30.\<close>

lemma get_one_string_length_example:
  "ref_consumed (get_sam_cigar_operations ''3M2D4M'') = 9
   \<and> get_one_string \<lparr>POS = 10, CIGAR = ''3M2D4M'', SEQ = ''ACGTACG''\<rparr> 30
       = Inr (Some ''**********ACG--TACG***********'')"
proof -
  have ops: "get_sam_cigar_operations ''3M2D4M'' = [(CHR ''M'', 3), (CHR ''D'', 2), (CHR ''M'', 4)]"
    by code_simp
  have rc: "ref_consumed [(CHR ''M'', 3), (CHR ''D'', 2), (CHR ''M'', 4)] = 9"
    by code_simp
  have ext: "extensions ''ACGTACG'' [(CHR ''M'', 3), (CHR ''D'', 2), (CHR ''M'', 4)] 0 10
      = ''ACG--TACG''"
    by code_simp
  have pad: "replicate 10 (CHR ''*'') @ ''ACG--TACG'' @ replicate (30 - 10 - 9) (CHR ''*'')
      = ''**********ACG--TACG***********''"
    by code_simp
  from get_one_string_length[of "\<lparr>POS = 10, CIGAR = ''3M2D4M'', SEQ = ''ACGTACG''\<rparr>" 30]
  have "get_one_string \<lparr>POS = 10, CIGAR = ''3M2D4M'', SEQ = ''ACGTACG''\<rparr> 30
      = Inr (Some (replicate 10 (CHR ''*'') @ ''ACG--TACG'' @ replicate (30 - 10 - 9) (CHR ''*'')))"
    by (simp add: ops rc ext Let_def del: extensions.simps replicate.simps)
  then show ?thesis
    by (simp only: pad ops rc simp_thms)
qed

text \<open>
  C9. A line whose CIGAR operations consume, together with POS, at most \<open>rlen\<close>
  reference bases should give POS sentinels, the extension of every operation in CIGAR
  order, and sentinels up to \<open>rlen\<close>. The CIGAR \<open>3=2M\<close> with the five bases ACGTT at POS
  0 is such a line for \<open>rlen\<close> 5: its operations \<open>(=, 3)\<close> and \<open>(M, 2)\<close> consume five
  reference bases, and their extensions under \<open>lambda_dict\<close> are ACG and TT. The pattern
  of \<open>split_sam_cigar\<close>, a run of digits and one letter of \<open>[A-Z]\<close>, has no place for the
  code \<open>=\<close>: the list of operations is \<open>(M, 2)\<close> alone, the entry of \<open>lambda_dict\<close> for
  \<open>=\<close> is never reached, the two bases of \<open>2M\<close> are read at the query cursor the run
  should have moved, and the result is AC followed by three sentinels. With the CIGAR
  \<open>3=1X2=\<close> only the mismatch is left.
\<close>

theorem cigar_equals_run_is_dropped:
  "ref_consumed [(CHR ''='', 3), (CHR ''M'', 2)] = 5
   \<and> extensions ''ACGTT'' [(CHR ''='', 3), (CHR ''M'', 2)] 0 0 = ''ACGTT''
   \<and> get_sam_cigar_operations ''3=2M'' = [(CHR ''M'', 2)]
   \<and> get_one_string \<lparr>POS = 0, CIGAR = ''3=2M'', SEQ = ''ACGTT''\<rparr> 5 = Inr (Some ''AC***'')
   \<and> get_sam_cigar_operations ''3=1X2='' = [(CHR ''X'', 1)]
   \<and> get_one_string \<lparr>POS = 0, CIGAR = ''3=1X2='', SEQ = ''ACGTAC''\<rparr> 6 = Inr (Some ''A*****'')"
  by code_simp

lemma sequence_err_map_Inr:
  "sequence_err (map (\<lambda>x. Inr (g x)) xs) = Inr (map g xs)"
  by (induction xs) simp_all

lemma fold_min_length: "fold min (map length rs) n = Min (insert n (length ` set rs))"
proof (induction rs arbitrary: n)
  case Nil
  then show ?case by simp
next
  case (Cons r rs)
  have "Min (insert (min (length r) n) (length ` set rs))
      = Min (insert n (insert (length r) (length ` set rs)))"
    by (cases "rs = []") (simp_all add: min.commute min.left_commute)
  with Cons show ?case by simp
qed

lemma check_site_nonempty:
  assumes "site \<noteq> []"
  shows "check_and_get_flattened_site site
    = Inr (if 1 < length (filter isalpha site) then CHR ''&'' else Max (set site))"
proof (cases site)
  case Nil
  with assms show ?thesis by simp
next
  case (Cons x xs)
  have "fold max xs x = Max (set (x # xs))"
    by (rule Max.set_eq_fold[symmetric])
  with Cons show ?thesis
    by (simp add: check_and_get_flattened_site_def Let_def)
qed

lemma isalpha_above_gap: "isalpha c \<Longrightarrow> CHR ''-'' < c"
  by (auto simp: isalpha_def ord_def less_char_def Let_def)

lemma gap_above_sentinel: "CHR ''*'' < CHR ''-''"
  by (simp add: less_char_def)

lemma flatten_sites_columns:
  assumes "rows \<noteq> []"
  shows "flatten_sites rows =
    Inr (map (\<lambda>i. let site = map (\<lambda>row. row ! i) rows
                  in if 1 < length (filter isalpha site) then CHR ''&'' else Max (set site))
          [0 ..< Min (length ` set rows)])"
proof -
  obtain r rs where rows: "rows = r # rs"
    using assms by (cases rows) auto
  have n: "fold min (map length rs) (length r) = Min (length ` set rows)"
    by (simp add: fold_min_length rows)
  have zip: "py_zip rows = map (\<lambda>i. map (\<lambda>row. row ! i) rows) [0 ..< Min (length ` set rows)]"
    using n by (simp add: py_zip_def rows)
  have site: "check_and_get_flattened_site (map (\<lambda>row. row ! i) rows)
      = Inr (let site = map (\<lambda>row. row ! i) rows
             in if 1 < length (filter isalpha site) then CHR ''&'' else Max (set site))" for i
    using check_site_nonempty[of "map (\<lambda>row. row ! i) rows"] assms by (simp add: Let_def)
  show ?thesis
    unfolding flatten_sites_def zip map_map comp_def site
    by (rule sequence_err_map_Inr)
qed

text \<open>
  C7. For a block of two or more reads whose per-read strings are \<open>rows\<close>, every column
  of the merged sequence \<open>seq_flat\<close> (the sequence that \<open>get_seq_from_block\<close> then hands
  to \<open>swap_in_gaps_Ns\<close>) is \<open>&\<close> when more than one read has an alphabetic character
  there, and otherwise the largest character of the column by ordinal; every alphabetic
  character is above the gap, and the gap is above the sentinel.
\<close>

theorem merged_site:
  assumes reads: "2 \<le> length sam_block"
    and strings: "map (\<lambda>sam_line. get_one_string sam_line rlen) sam_block
                  = map (\<lambda>s. Inr (Some s)) rows"
  shows "\<exists>seq_flat.
           flatten_sites rows = Inr seq_flat
           \<and> get_seq_from_block sam_block rlen = Inr (swap_in_gaps_Ns seq_flat)
           \<and> length seq_flat = Min (length ` set rows)
           \<and> (\<forall>i < length seq_flat.
                 seq_flat ! i =
                   (let site = map (\<lambda>row. row ! i) rows
                    in if 1 < length (filter isalpha site) then CHR ''&'' else Max (set site)))
           \<and> (\<forall>c. isalpha c \<longrightarrow> CHR ''-'' < c) \<and> CHR ''*'' < CHR ''-''"
proof -
  have len: "length rows = length sam_block"
    using strings by (metis length_map)
  then have ne: "rows \<noteq> []" and two: "length rows \<noteq> 1"
    using reads by auto
  define seq_flat where "seq_flat = map (\<lambda>i. let site = map (\<lambda>row. row ! i) rows
                  in if 1 < length (filter isalpha site) then CHR ''&'' else Max (set site))
          [0 ..< Min (length ` set rows)]"
  have flat: "flatten_sites rows = Inr seq_flat"
    unfolding seq_flat_def by (rule flatten_sites_columns[OF ne])
  have s1: "sequence_err (map (\<lambda>sam_line. get_one_string sam_line rlen) sam_block)
      = Inr (map Some rows)"
    unfolding strings by (rule sequence_err_map_Inr)
  have s2: "sequence_err (map (the_string \<circ> Some) rows) = Inr rows"
    using sequence_err_map_Inr[of "\<lambda>s. s" rows] by (simp add: the_string_def comp_def)
  have block: "get_seq_from_block sam_block rlen = Inr (swap_in_gaps_Ns seq_flat)"
    using two by (simp add: get_seq_from_block_def s1 s2 flat)
  have "length seq_flat = Min (length ` set rows)"
    by (simp add: seq_flat_def)
  moreover have "\<forall>i < length seq_flat. seq_flat ! i =
                   (let site = map (\<lambda>row. row ! i) rows
                    in if 1 < length (filter isalpha site) then CHR ''&'' else Max (set site))"
    by (simp add: seq_flat_def)
  ultimately show ?thesis
    using flat block isalpha_above_gap gap_above_sentinel by blast
qed

text \<open>Two reads that overlap in one column: a base against the sentinel, two bases, the
  gap against the sentinel, and a column no read covers.\<close>

theorem merged_site_witness:
  "get_seq_from_block
     [\<lparr>POS = 0, CIGAR = ''2M1D'', SEQ = ''AC''\<rparr>, \<lparr>POS = 1, CIGAR = ''1M'', SEQ = ''G''\<rparr>] 4
     = Inr (swap_in_gaps_Ns ''A&-*'')
   \<and> flatten_sites [''AC-*'', ''*G**''] = Inr ''A&-*''"
proof -
  have strings:
    "map (\<lambda>sam_line. get_one_string sam_line 4)
       [\<lparr>POS = 0, CIGAR = ''2M1D'', SEQ = ''AC''\<rparr>, \<lparr>POS = 1, CIGAR = ''1M'', SEQ = ''G''\<rparr>]
     = map (\<lambda>s. Inr (Some s)) [''AC-*'', ''*G**'']"
    by code_simp
  have reads: "2 \<le> length [\<lparr>POS = 0, CIGAR = ''2M1D'', SEQ = ''AC''\<rparr>, \<lparr>POS = 1, CIGAR = ''1M'', SEQ = ''G''\<rparr>]"
    by simp
  have flat: "flatten_sites [''AC-*'', ''*G**''] = Inr ''A&-*''"
    by code_simp
  from merged_site[OF reads strings] obtain seq_flat where
    "flatten_sites [''AC-*'', ''*G**''] = Inr seq_flat"
    "get_seq_from_block
       [\<lparr>POS = 0, CIGAR = ''2M1D'', SEQ = ''AC''\<rparr>, \<lparr>POS = 1, CIGAR = ''1M'', SEQ = ''G''\<rparr>] 4
       = Inr (swap_in_gaps_Ns seq_flat)"
    by blast
  with flat show ?thesis by simp
qed

text \<open>The three examples of the specification.\<close>

lemma swap_in_gaps_Ns_examples:
  "swap_in_gaps_Ns ''AA***AA'' = ''AANNNAA''
   \<and> swap_in_gaps_Ns ''***AA'' = ''---AA''
   \<and> swap_in_gaps_Ns ''AA***'' = ''AA---''"
  by code_simp

text \<open>
  C3. Every run of sentinels between two letters should become \<open>N\<close>. \<open>re.findall\<close>
  returns matches that do not overlap, so a run that starts at the letter which ended
  the match before it is not found, and stays: in \<open>A*A*A\<close> the second run, in
  \<open>AA***A***AA\<close> the run behind the single covered base.
\<close>

theorem swap_misses_run_behind_shared_letter:
  "swap_in_gaps_Ns ''A*A*A'' = ''ANA*A''
   \<and> swap_in_gaps_Ns ''AA***A***AA'' = ''AANNNA***AA''"
  by code_simp

section \<open>Properties of the lineage curator\<close>

text \<open>
  C2. The labels at the end of a run should differ from cluster to cluster. With the
  label UK2 in use and two clusters to name, \<open>full_list\<close> is \<open>[1]\<close> (as long as the list
  of labels in use, not as large as the largest of them): the first cluster gets UK1, the
  second gets \<open>len(full_list) + 1\<close>, which is UK2 again. The two integrity checks pass,
  since \<open>test_counter\<close> counts the labels that were in use only.
\<close>

theorem minted_label_repeats_label_in_use:
  "curate_lineages
     [''taxon,country,introduction,a,b,c,deltrans'',
      ''t1,UK,UK2,,,,A'', ''t2,UK,,,,,B'', ''t3,UK,,,,,C'']
     = Inr [(''A'', ''UK2''), (''B'', ''UK1''), (''C'', ''UK2'')]
   \<and> name_new_lineages [(''A'', [''UK2'']), (''B'', [[]]), (''C'', [[]])]
     = Inr ([(''A'', ''UK2''), (''B'', ''UK1''), (''C'', ''UK2'')], [(2, 1)])"
  by code_simp

text \<open>
  C4. A cluster that loses its label in the sweep should take the first free candidate
  of its proposals in descending frequency. Clusters Z and X both win UK1 in the first
  pass; Z, the first of the two with the largest count, keeps it. The proposals of X
  are UK1 and UK7 twice each and UK9 once, UK9 met before UK7: by frequency the next
  candidate is UK7, but the loop goes over the keys of the \<open>Counter\<close> in insertion order
  and gives X the label UK9.
\<close>

theorem sweep_scans_in_insertion_order:
  "map_sum id (\<lambda>t. (acc_name_counts t, lin_acc_counts t))
     (make_taxon_objects
        [''taxon,country,introduction,a,b,c,deltrans'',
         ''z1,UK,UK5,,,,Z'', ''z2,UK,UK5,,,,Z'', ''z3,UK,UK1,,,,Z'', ''z4,UK,UK1,,,,Z'',
         ''w1,UK,UK5,,,,W'', ''w2,UK,UK5,,,,W'', ''w3,UK,UK5,,,,W'',
         ''x1,UK,UK1,,,,X'', ''x2,UK,UK9,,,,X'', ''x3,UK,UK7,,,,X'', ''x4,UK,UK7,,,,X'',
         ''x5,UK,UK1,,,,X''])
     = Inr ([(''Z'', [(''UK5'', 2), (''UK1'', 2)]), (''W'', [(''UK5'', 3)]),
             (''X'', [(''UK1'', 2), (''UK9'', 1), (''UK7'', 2)])],
            [(''UK5'', [(''Z'', 2), (''W'', 3)]), (''UK1'', [(''Z'', 2), (''X'', 2)]),
             (''UK9'', [(''X'', 1)]), (''UK7'', [(''X'', 2)])])
   \<and> rename_lineages
        [(''Z'', [(''UK5'', 2), (''UK1'', 2)]), (''W'', [(''UK5'', 3)]),
         (''X'', [(''UK1'', 2), (''UK9'', 1), (''UK7'', 2)])]
        [(''UK5'', [(''Z'', 2), (''W'', 3)]), (''UK1'', [(''Z'', 2), (''X'', 2)]),
         (''UK9'', [(''X'', 1)]), (''UK7'', [(''X'', 2)])]
     = Inr ([(''Z'', [''UK1'']), (''W'', [''UK5'']), (''X'', [''UK1''])], [''UK1'', ''UK5'', ''UK1''])
   \<and> most_common [(''UK1'', 2), (''UK9'', 1), (''UK7'', 2)]
     = [(''UK1'', 2), (''UK7'', 2), (''UK9'', 1)]
   \<and> deal_with_issues
        [(''Z'', [''UK1'']), (''W'', [''UK5'']), (''X'', [''UK1''])] [''UK1'', ''UK5'', ''UK1'']
        [(''UK5'', [(''Z'', 2), (''W'', 3)]), (''UK1'', [(''Z'', 2), (''X'', 2)]),
         (''UK9'', [(''X'', 1)]), (''UK7'', [(''X'', 2)])]
        [(''Z'', [(''UK5'', 2), (''UK1'', 2)]), (''W'', [(''UK5'', 3)]),
         (''X'', [(''UK1'', 2), (''UK9'', 1), (''UK7'', 2)])]
     = Inr [(''Z'', [''UK1'']), (''W'', [''UK5'']), (''X'', [''UK9''])]"
  by code_simp

section \<open>Properties of the anonymizer\<close>

lemma map_of_dict_set: "map_of (dict_set k v d) = (map_of d)(k \<mapsto> v)"
  by (induction d) (auto simp: fun_eq_iff)

lemma keys_dict_set: "fst ` set (dict_set k v d) = insert k (fst ` set d)"
  by (induction d) auto

lemma distinct_dict_set: "distinct (map fst d) \<Longrightarrow> distinct (map fst (dict_set k v d))"
  by (induction d) (auto simp: keys_dict_set[simplified])

lemma counter_get_dict_set:
  "counter_get (dict_set k v c) k' = (if k' = k then v else counter_get c k')"
  by (simp add: counter_get_def map_of_dict_set)

lemma tally_adm2_counts:
  assumes "\<forall>entry \<in> set ml. map_of entry ''adm2'' \<noteq> None"
  shows "\<exists>c'. tally_adm2 ml c = Inr c'
           \<and> (\<forall>v. counter_get c' v = counter_get c v + adm2_occurrences ml v)
           \<and> fst ` set c' = fst ` set c \<union> {v. \<exists>entry \<in> set ml. map_of entry ''adm2'' = Some v}"
  using assms
proof (induction ml arbitrary: c)
  case Nil
  then show ?case by (simp add: adm2_occurrences_def)
next
  case (Cons entry rest)
  then obtain location where loc: "map_of entry ''adm2'' = Some location"
    by auto
  define c1 where "c1 = dict_set location (counter_get c location + 1) c"
  have step: "tally_adm2 (entry # rest) c = tally_adm2 rest c1"
  proof (cases "location \<in> fst ` set c")
    case True
    then show ?thesis by (simp add: dict_get_def loc c1_def)
  next
    case False
    then have "map_of c location = None"
      by (simp add: map_of_eq_None_iff)
    then have "counter_get c location = 0"
      by (simp add: counter_get_def)
    with False show ?thesis by (simp add: dict_get_def loc c1_def)
  qed
  from Cons.IH[of c1] Cons.prems obtain c' where
    run: "tally_adm2 rest c1 = Inr c'"
    and cnt: "\<forall>v. counter_get c' v = counter_get c1 v + adm2_occurrences rest v"
    and keys: "fst ` set c' = fst ` set c1 \<union> {v. \<exists>entry \<in> set rest. map_of entry ''adm2'' = Some v}"
    by auto
  have "\<forall>v. counter_get c' v = counter_get c v + adm2_occurrences (entry # rest) v"
    using cnt loc by (auto simp: c1_def counter_get_dict_set adm2_occurrences_def)
  moreover have "fst ` set c' = fst ` set c \<union> {v. \<exists>e \<in> set (entry # rest). map_of e ''adm2'' = Some v}"
    using keys loc by (auto simp: c1_def keys_dict_set)
  ultimately show ?case
    using step run by simp
qed

lemma redact_adm2_map:
  assumes "\<forall>entry \<in> set ml. map_of entry ''adm2'' \<noteq> None"
  shows "redact_adm2 anon ml =
    Inr (map (\<lambda>entry. dict_set ''anonymized_admn2''
                (if the (map_of entry ''adm2'') \<in> set anon then [] else the (map_of entry ''adm2'')) entry) ml)"
  using assms
proof (induction ml)
  case Nil
  then show ?case by simp
next
  case (Cons entry rest)
  then obtain location where loc: "map_of entry ''adm2'' = Some location"
    by auto
  with Cons show ?case
    by (simp add: dict_get_def)
qed

lemma in_anonymous_locations:
  "v \<in> set (anonymous_locations c) \<longleftrightarrow> v \<in> fst ` set c \<and> counter_get c v < 5"
  by (auto simp: anonymous_locations_def)

text \<open>
  C8, as amended. For a file in which every row has an adm2 field, the run returns one
  row per input row, the input row with the new field \<open>anonymized_admn2\<close>: empty when
  the row's adm2 value occurs fewer than five times in the file, the adm2 value itself
  otherwise. So the new field is empty exactly when the value occurs fewer than five
  times or is itself empty.
\<close>

theorem anonymized_adm2:
  assumes rows: "\<forall>entry \<in> set metadata_list. map_of entry ''adm2'' \<noteq> None"
  shows "\<exists>out. anonymize_adm2 metadata_list = Inr out
           \<and> length out = length metadata_list
           \<and> (\<forall>i < length metadata_list.
                \<exists>v. map_of (metadata_list ! i) ''adm2'' = Some v
                  \<and> out ! i = dict_set ''anonymized_admn2''
                                (if adm2_occurrences metadata_list v < 5 then [] else v)
                                (metadata_list ! i)
                  \<and> (map_of (out ! i) ''anonymized_admn2'' = Some []
                       \<longleftrightarrow> adm2_occurrences metadata_list v < 5 \<or> v = []))"
proof -
  from tally_adm2_counts[OF rows, of "[]"] obtain c' where
    run: "tally_adm2 metadata_list [] = Inr c'"
    and cnt: "\<forall>v. counter_get c' v = adm2_occurrences metadata_list v"
    and keys: "fst ` set c' = {v. \<exists>entry \<in> set metadata_list. map_of entry ''adm2'' = Some v}"
    by (auto simp: counter_get_def)
  define out where "out = map (\<lambda>entry. dict_set ''anonymized_admn2''
                (if the (map_of entry ''adm2'') \<in> set (anonymous_locations c') then []
                 else the (map_of entry ''adm2'')) entry) metadata_list"
  have res: "anonymize_adm2 metadata_list = Inr out"
    by (simp add: anonymize_adm2_def run out_def redact_adm2_map[OF rows])
  have row: "\<exists>v. map_of (metadata_list ! i) ''adm2'' = Some v
                  \<and> out ! i = dict_set ''anonymized_admn2''
                                (if adm2_occurrences metadata_list v < 5 then [] else v)
                                (metadata_list ! i)
                  \<and> (map_of (out ! i) ''anonymized_admn2'' = Some []
                       \<longleftrightarrow> adm2_occurrences metadata_list v < 5 \<or> v = [])"
    if i: "i < length metadata_list" for i
  proof -
    have mem: "metadata_list ! i \<in> set metadata_list"
      using i by simp
    with rows obtain v where v: "map_of (metadata_list ! i) ''adm2'' = Some v"
      by blast
    have "v \<in> fst ` set c'"
      unfolding keys using v mem by blast
    then have anon: "v \<in> set (anonymous_locations c') \<longleftrightarrow> adm2_occurrences metadata_list v < 5"
      by (simp add: in_anonymous_locations cnt)
    have o: "out ! i = dict_set ''anonymized_admn2''
                                (if adm2_occurrences metadata_list v < 5 then [] else v)
                                (metadata_list ! i)"
      using i by (simp add: out_def v anon)
    show ?thesis
      using v o by (auto simp: map_of_dict_set)
  qed
  have "length out = length metadata_list"
    by (simp add: out_def)
  with res row show ?thesis by blast
qed

theorem anonymized_adm2_witness:
  "anonymize_adm2
     [[(''adm2'', ''LONDON'')], [(''adm2'', ''RUTLAND'')], [(''adm2'', ''LONDON'')],
      [(''adm2'', ''LONDON'')], [(''adm2'', ''LONDON'')], [(''adm2'', ''LONDON'')]]
     = Inr [[(''adm2'', ''LONDON''), (''anonymized_admn2'', ''LONDON'')],
            [(''adm2'', ''RUTLAND''), (''anonymized_admn2'', [])],
            [(''adm2'', ''LONDON''), (''anonymized_admn2'', ''LONDON'')],
            [(''adm2'', ''LONDON''), (''anonymized_admn2'', ''LONDON'')],
            [(''adm2'', ''LONDON''), (''anonymized_admn2'', ''LONDON'')],
            [(''adm2'', ''LONDON''), (''anonymized_admn2'', ''LONDON'')]]"
proof -
  let ?rows = "[[(''adm2'', ''LONDON'')], [(''adm2'', ''RUTLAND'')], [(''adm2'', ''LONDON'')],
      [(''adm2'', ''LONDON'')], [(''adm2'', ''LONDON'')], [(''adm2'', ''LONDON'')]]"
  have hyp: "\<forall>entry \<in> set ?rows. map_of entry ''adm2'' \<noteq> None"
    by simp
  from anonymized_adm2[OF hyp] obtain out where
    out: "anonymize_adm2 ?rows = Inr out" and rows:
    "\<forall>i < length ?rows.
       \<exists>v. map_of (?rows ! i) ''adm2'' = Some v
         \<and> out ! i = dict_set ''anonymized_admn2''
                       (if adm2_occurrences ?rows v < 5 then [] else v) (?rows ! i)
         \<and> (map_of (out ! i) ''anonymized_admn2'' = Some []
              \<longleftrightarrow> adm2_occurrences ?rows v < 5 \<or> v = [])"
    by blast
  have "anonymize_adm2 ?rows
     = Inr [[(''adm2'', ''LONDON''), (''anonymized_admn2'', ''LONDON'')],
            [(''adm2'', ''RUTLAND''), (''anonymized_admn2'', [])],
            [(''adm2'', ''LONDON''), (''anonymized_admn2'', ''LONDON'')],
            [(''adm2'', ''LONDON''), (''anonymized_admn2'', ''LONDON'')],
            [(''adm2'', ''LONDON''), (''anonymized_admn2'', ''LONDON'')],
            [(''adm2'', ''LONDON''), (''anonymized_admn2'', ''LONDON'')]]"
    by code_simp
  with out show ?thesis by simp
qed

text \<open>Five rows with an empty adm2 value: the value occurs five times, and the new field
  is empty all the same, being the copy of an empty value.\<close>

theorem anonymized_adm2_counterexample:
  "anonymize_adm2
     [[(''adm2'', [])], [(''adm2'', [])], [(''adm2'', [])], [(''adm2'', [])], [(''adm2'', [])]]
     = Inr [[(''adm2'', []), (''anonymized_admn2'', [])],
            [(''adm2'', []), (''anonymized_admn2'', [])],
            [(''adm2'', []), (''anonymized_admn2'', [])],
            [(''adm2'', []), (''anonymized_admn2'', [])],
            [(''adm2'', []), (''anonymized_admn2'', [])]]
   \<and> adm2_occurrences
       [[(''adm2'', [])], [(''adm2'', [])], [(''adm2'', [])], [(''adm2'', [])], [(''adm2'', [])]] [] = 5"
  by code_simp

section \<open>Properties of the converter\<close>

text \<open>What a loop of dictionary writes leaves at a key, and what the two readers and the
  enrichment steps return.\<close>

lemma map_of_fold_dict_set:
  "map_of (fold (\<lambda>x d. dict_set (k x) (v x) d) xs d0) key =
     (if filter (\<lambda>x. k x = key) xs = [] then map_of d0 key
      else Some (v (last (filter (\<lambda>x. k x = key) xs))))"
proof (induction xs rule: rev_induct)
  case Nil
  then show ?case by simp
next
  case (snoc x xs)
  show ?case
  proof (cases "k x = key")
    case True
    then show ?thesis
      by (simp add: map_of_dict_set)
  next
    case False
    with snoc show ?thesis
      by (simp add: map_of_dict_set)
  qed
qed

lemma keys_fold_dict_set:
  "fst ` set (fold (\<lambda>x d. dict_set (k x) (v x) d) xs d0) = fst ` set d0 \<union> k ` set xs"
  by (induction xs arbitrary: d0) (auto simp: keys_dict_set)

lemma distinct_fold_dict_set:
  "distinct (map fst d0) \<Longrightarrow> distinct (map fst (fold (\<lambda>x d. dict_set (k x) (v x) d) xs d0))"
  by (induction xs arbitrary: d0) (simp_all add: distinct_dict_set)

lemma new_keys_distinct: "distinct (new_keys xs)"
  unfolding new_keys_def using distinct_fold_dict_set[of "[]" "\<lambda>x. x" "\<lambda>x. ()" xs] by simp

lemma new_keys_set: "set (new_keys xs) = set xs"
  unfolding new_keys_def using keys_fold_dict_set[of "\<lambda>x. x" "\<lambda>x. ()" xs "[]"] by simp

lemma map_of_add_missing:
  "map_of (add_missing fl d) k =
     (if map_of d k = None then (if k \<in> set fl then Some [] else None) else map_of d k)"
  unfolding add_missing_def
proof (induction fl arbitrary: d)
  case Nil
  then show ?case by simp
next
  case (Cons x fl)
  show ?case
    by (simp add: Cons.IH map_of_dict_set)
qed

lemma map_of_expand_dict:
  "map_of (expand_dict d req opt) k =
     (if map_of d k = None then (if k \<in> set req \<union> set opt then Some [] else None) else map_of d k)"
  by (simp add: expand_dict_def map_of_add_missing)

lemma accession_in_required: "''covv_accession_id'' \<in> set (fields_gisaid @ fields_edin)"
  by (simp add: fields_gisaid_def)

lemma dict_get_accession:
  assumes "map_of d ''covv_accession_id'' \<noteq> None"
  shows "dict_get d ''covv_accession_id'' = Inr (accession_of d)"
  using assms by (auto simp: dict_get_def accession_of_def)

lemma json_record_has_accession: "map_of (json_record flds obj) ''covv_accession_id'' \<noteq> None"
  unfolding json_record_def using accession_in_required
  by (simp add: map_of_expand_dict del: set_append)

lemma csv_record_has_accession: "map_of (csv_record keys flds line) ''covv_accession_id'' \<noteq> None"
  unfolding csv_record_def using accession_in_required
  by (simp add: map_of_expand_dict del: set_append)

lemma json_rows_result:
  "json_rows (fields_gisaid @ fields_edin) flds objs (order, d) =
     Inr (order @ map (\<lambda>obj. accession_of (json_record flds obj)) objs,
          fold (\<lambda>obj d. dict_set (accession_of (json_record flds obj)) (json_record flds obj) d) objs d)"
proof (induction objs arbitrary: order d)
  case Nil
  then show ?case by simp
next
  case (Cons obj objs)
  have "dict_get (json_record flds obj) ''covv_accession_id'' = Inr (accession_of (json_record flds obj))"
    by (rule dict_get_accession[OF json_record_has_accession])
  then show ?case
    using Cons.IH by (simp add: json_record_def[symmetric] Let_def)
qed

lemma csv_rows_result:
  assumes "csv_rows keys (fields_gisaid @ fields_edin) flds lines (order, d) = Inr (order', d')"
  shows "order' = order @ map (\<lambda>line. accession_of (csv_record keys flds line)) lines
       \<and> d' = fold (\<lambda>line d. dict_set (accession_of (csv_record keys flds line)) (csv_record keys flds line) d) lines d
       \<and> (\<forall>line \<in> set lines. length (split_on (CHR '','') (strip line)) = length keys)"
  using assms
proof (induction lines arbitrary: order d)
  case Nil
  then show ?case by simp
next
  case (Cons line lines)
  have len: "length (split_on (CHR '','') (strip line)) = length keys"
    using Cons.prems by (auto simp: record_of_line_def Let_def split: if_splits)
  then have rec: "record_of_line keys (fields_gisaid @ fields_edin) flds line = Inr (csv_record keys flds line)"
    by (simp add: record_of_line_def csv_record_def Let_def)
  have acc: "dict_get (csv_record keys flds line) ''covv_accession_id'' = Inr (accession_of (csv_record keys flds line))"
    by (rule dict_get_accession[OF csv_record_has_accession])
  from Cons.prems have "csv_rows keys (fields_gisaid @ fields_edin) flds lines
      (order @ [accession_of (csv_record keys flds line)],
       dict_set (accession_of (csv_record keys flds line)) (csv_record keys flds line) d) = Inr (order', d')"
    by (simp add: rec acc)
  from Cons.IH[OF this] len show ?case by simp
qed

lemma sequence_err_Inr:
  assumes "sequence_err (map f xs) = Inr ys"
  shows "length ys = length xs \<and> (\<forall>i < length xs. f (xs ! i) = Inr (ys ! i))"
  using assms
proof (induction xs arbitrary: ys)
  case Nil
  then show ?case by simp
next
  case (Cons x xs)
  from Cons.prems obtain y ys' where fx: "f x = Inr y" and rest: "sequence_err (map f xs) = Inr ys'"
    and ys: "ys = y # ys'"
    by (auto split: sum.splits)
  from Cons.IH[OF rest] fx ys show ?case
    by (auto simp: nth_Cons split: nat.splits)
qed

lemma apply_step_Inr:
  assumes "apply_step f keys d = Inr d'" "distinct keys"
  shows "(\<forall>x \<in> set keys. \<forall>v. map_of d x = Some v \<longrightarrow> (\<exists>v'. f v = Inr v' \<and> map_of d' x = Some v'))
       \<and> (\<forall>x. x \<notin> set keys \<longrightarrow> map_of d' x = map_of d x)"
  using assms
proof (induction keys arbitrary: d)
  case Nil
  then show ?case by simp
next
  case (Cons k keys)
  from Cons.prems(1) obtain v v' where v: "map_of d k = Some v" and fv: "f v = Inr v'"
    and rest: "apply_step f keys (dict_set k v' d) = Inr d'"
    by (auto simp: dict_get_def split: option.splits sum.splits)
  from Cons.prems(2) have dist: "distinct keys" and notin: "k \<notin> set keys"
    by simp_all
  from Cons.IH[OF rest dist] have
    ih1: "\<forall>x \<in> set keys. \<forall>w. map_of (dict_set k v' d) x = Some w \<longrightarrow> (\<exists>w'. f w = Inr w' \<and> map_of d' x = Some w')"
    and ih2: "\<forall>x. x \<notin> set keys \<longrightarrow> map_of d' x = map_of (dict_set k v' d) x"
    by blast+
  have "map_of d' k = Some v'"
    using ih2 notin by (simp add: map_of_dict_set)
  moreover have "\<forall>x \<in> set keys. \<forall>w. map_of d x = Some w \<longrightarrow> (\<exists>w'. f w = Inr w' \<and> map_of d' x = Some w')"
  proof (intro ballI allI impI)
    fix x w
    assume x: "x \<in> set keys" and w: "map_of d x = Some w"
    from x notin have "x \<noteq> k" by auto
    with w have "map_of (dict_set k v' d) x = Some w"
      by (simp add: map_of_dict_set)
    with ih1 x show "\<exists>w'. f w = Inr w' \<and> map_of d' x = Some w'"
      by blast
  qed
  moreover have "\<forall>x. x \<notin> set (k # keys) \<longrightarrow> map_of d' x = map_of d x"
    using ih2 by (simp add: map_of_dict_set)
  ultimately show ?case
    using v fv by auto
qed

lemma apply_steps_Inr:
  assumes "apply_steps fs keys d = Inr d'" "distinct keys"
  shows "(\<forall>x \<in> set keys. \<forall>v. map_of d x = Some v \<longrightarrow> (\<exists>v'. enrich fs v = Inr v' \<and> map_of d' x = Some v'))
       \<and> (\<forall>x. x \<notin> set keys \<longrightarrow> map_of d' x = map_of d x)"
  using assms
proof (induction fs arbitrary: d)
  case Nil
  then show ?case by simp
next
  case (Cons f fs)
  from Cons.prems(1) obtain d1 where s1: "apply_step f keys d = Inr d1"
    and rest: "apply_steps fs keys d1 = Inr d'"
    by (auto split: sum.splits)
  note a = apply_step_Inr[OF s1 Cons.prems(2)]
  note b = Cons.IH[OF rest Cons.prems(2)]
  have "\<exists>v'. enrich (f # fs) v = Inr v' \<and> map_of d' x = Some v'"
    if x: "x \<in> set keys" and v: "map_of d x = Some v" for x v
  proof -
    from a x v obtain v1 where "f v = Inr v1" "map_of d1 x = Some v1"
      by blast
    moreover from b x this(2) obtain v' where "enrich fs v1 = Inr v'" "map_of d' x = Some v'"
      by blast
    ultimately show ?thesis by simp
  qed
  moreover have "\<forall>x. x \<notin> set keys \<longrightarrow> map_of d' x = map_of d x"
    using a b by simp
  ultimately show ?case by blast
qed

text \<open>A run that returns has read the dump, applied the steps and written the header,
  the registry's rows and the new rows; a new row renders the enriched record of its ID.\<close>

lemma run_decomposition:
  assumes run: "gisaid_json_2_metadata json_objs today lookup travel args_csv omitted_IDs lineages = Inr out"
    and reg: "read_registry args_csv = Inr (flds, old_list, old_dict)"
  shows "\<exists>nd old_lines new_lines.
           apply_steps (enrichment_steps today lookup travel omitted_IDs lineages)
             (new_keys (filter (\<lambda>x. x \<notin> set old_list) (map (\<lambda>obj. accession_of (json_record flds obj)) json_objs)))
             (fold (\<lambda>obj d. dict_set (accession_of (json_record flds obj)) (json_record flds obj) d) json_objs [])
             = Inr nd
         \<and> sequence_err (map (line_of old_dict (output_fields flds)) old_list) = Inr old_lines
         \<and> sequence_err (map (line_of nd (output_fields flds))
               (filter (\<lambda>x. x \<notin> set old_list) (map (\<lambda>obj. accession_of (json_record flds obj)) json_objs)))
             = Inr new_lines
         \<and> out = (join '','' (output_fields flds) @ [CHR 0x0A]) # old_lines @ new_lines"
proof -
  have js: "get_json_order_and_record_dict json_objs (fields_gisaid @ fields_edin) flds
      = Inr (map (\<lambda>obj. accession_of (json_record flds obj)) json_objs,
             fold (\<lambda>obj d. dict_set (accession_of (json_record flds obj)) (json_record flds obj) d) json_objs [])"
    unfolding get_json_order_and_record_dict_def using json_rows_result[of flds json_objs "[]" "[]"]
    by simp
  from run show ?thesis
    by (auto simp: gisaid_json_2_metadata_def reg js write_output_def output_fields_def[symmetric]
          Let_def split: sum.splits)
qed

lemma new_row_renders_enriched_record:
  assumes steps: "apply_steps fs (new_keys new_ids)
             (fold (\<lambda>obj d. dict_set (accession_of (json_record flds obj)) (json_record flds obj) d) json_objs [])
             = Inr nd"
    and lines: "sequence_err (map (line_of nd F) new_ids) = Inr new_lines"
    and sub: "set new_ids \<subseteq> set (map (\<lambda>obj. accession_of (json_record flds obj)) json_objs)"
    and k: "k < length new_ids"
  shows "\<exists>r. enrich fs (json_record flds
                  (last (filter (\<lambda>obj. accession_of (json_record flds obj) = new_ids ! k) json_objs)))
               = Inr r
           \<and> get_one_line r F = Inr (new_lines ! k)"
proof -
  define ID where "ID = new_ids ! k"
  have mem: "ID \<in> set new_ids"
    using k ID_def by simp
  with sub have "ID \<in> (\<lambda>obj. accession_of (json_record flds obj)) ` set json_objs"
    by auto
  then have ne: "filter (\<lambda>obj. accession_of (json_record flds obj) = ID) json_objs \<noteq> []"
    by (auto simp: filter_empty_conv)
  have stored: "map_of (fold (\<lambda>obj d. dict_set (accession_of (json_record flds obj)) (json_record flds obj) d) json_objs []) ID
      = Some (json_record flds (last (filter (\<lambda>obj. accession_of (json_record flds obj) = ID) json_objs)))"
    using ne by (simp add: map_of_fold_dict_set)
  from apply_steps_Inr[OF steps new_keys_distinct] mem stored obtain r where
    r: "enrich fs (json_record flds (last (filter (\<lambda>obj. accession_of (json_record flds obj) = ID) json_objs))) = Inr r"
    and nd: "map_of nd ID = Some r"
    unfolding new_keys_set by blast
  from sequence_err_Inr[OF lines] k have "line_of nd F ID = Inr (new_lines ! k)"
    by (simp add: ID_def)
  with nd have "get_one_line r F = Inr (new_lines ! k)"
    by (simp add: line_of_def dict_get_def)
  with r show ?thesis
    unfolding ID_def by blast
qed

lemma filter_take_position:
  assumes "i < length xs" "P (xs ! i)"
  shows "length (filter P (take i xs)) < length (filter P xs)
       \<and> filter P xs ! length (filter P (take i xs)) = xs ! i"
proof -
  have "xs = take i xs @ xs ! i # drop (Suc i) xs"
    using assms(1) by (rule id_take_nth_drop)
  then have "filter P xs = filter P (take i xs) @ xs ! i # filter P (drop (Suc i) xs)"
    using assms(2) by (metis filter.simps(2) filter_append)
  then show ?thesis
    by (simp add: nth_append)
qed

lemma filter_take_mono:
  assumes "i < j" "j \<le> length xs" "P (xs ! i)"
  shows "length (filter P (take i xs)) < length (filter P (take j xs))"
proof -
  have "i < length (take j xs)" "P (take j xs ! i)" "take i (take j xs) = take i xs"
    using assms by (simp_all add: min_def)
  with filter_take_position[of i "take j xs" P] show ?thesis
    by simp
qed

text \<open>The steps return when every record returns from them one after the other.\<close>

lemma sequence_err_succeeds:
  assumes "\<forall>x \<in> set xs. \<exists>y. f x = Inr y"
  shows "\<exists>ys. sequence_err (map f xs) = Inr ys"
  using assms by (induction xs) auto

lemma apply_step_succeeds:
  assumes "distinct keys" "\<forall>x \<in> set keys. \<exists>v v'. map_of d x = Some v \<and> f v = Inr v'"
  shows "\<exists>d'. apply_step f keys d = Inr d'"
  using assms
proof (induction keys arbitrary: d)
  case Nil
  then show ?case by simp
next
  case (Cons k keys)
  from Cons.prems(2) obtain v v' where v: "map_of d k = Some v" "f v = Inr v'"
    by auto
  from Cons.prems(1) have dist: "distinct keys" and notin: "k \<notin> set keys"
    by simp_all
  have "\<forall>x \<in> set keys. \<exists>w w'. map_of (dict_set k v' d) x = Some w \<and> f w = Inr w'"
  proof
    fix x
    assume x: "x \<in> set keys"
    with notin have "x \<noteq> k" by auto
    then have "map_of (dict_set k v' d) x = map_of d x"
      by (simp add: map_of_dict_set)
    with Cons.prems(2) x show "\<exists>w w'. map_of (dict_set k v' d) x = Some w \<and> f w = Inr w'"
      by simp
  qed
  from Cons.IH[OF dist this] v show ?case
    by (simp add: dict_get_def)
qed

lemma enrich_Cons_Inr:
  "enrich (f # fs) v = Inr v' \<longleftrightarrow> (\<exists>v1. f v = Inr v1 \<and> enrich fs v1 = Inr v')"
  by (auto split: sum.splits)

lemma apply_steps_succeeds:
  assumes "distinct keys" "\<forall>x \<in> set keys. \<exists>v v'. map_of d x = Some v \<and> enrich fs v = Inr v'"
  shows "\<exists>d'. apply_steps fs keys d = Inr d'"
  using assms
proof (induction fs arbitrary: d)
  case Nil
  then show ?case by simp
next
  case (Cons f fs)
  have first: "\<forall>x \<in> set keys. \<exists>v v1. map_of d x = Some v \<and> f v = Inr v1"
    using Cons.prems(2) by (metis enrich_Cons_Inr)
  from apply_step_succeeds[OF Cons.prems(1) first] obtain d1 where d1: "apply_step f keys d = Inr d1"
    by blast
  note a = apply_step_Inr[OF d1 Cons.prems(1)]
  have "\<forall>x \<in> set keys. \<exists>v v'. map_of d1 x = Some v \<and> enrich fs v = Inr v'"
  proof
    fix x
    assume x: "x \<in> set keys"
    with Cons.prems(2) obtain v v' where v: "map_of d x = Some v" "enrich (f # fs) v = Inr v'"
      by blast
    then obtain v1 where v1: "f v = Inr v1" "enrich fs v1 = Inr v'"
      using enrich_Cons_Inr[of f fs v v'] by blast
    from a x v(1) v1(1) have "map_of d1 x = Some v1"
      by fastforce
    with v1(2) show "\<exists>v v'. map_of d1 x = Some v \<and> enrich fs v = Inr v'"
      by blast
  qed
  from Cons.IH[OF Cons.prems(1) this] d1 show ?case
    by simp
qed

text \<open>Whether a run returns is a matter of the registry's rows and, for every new
  accession ID, of the last dump line with that ID: its record must pass the steps and
  render.\<close>

lemma run_returns_iff:
  assumes reg: "read_registry args_csv = Inr (flds, old_list, old_dict)"
  shows "(\<exists>out. gisaid_json_2_metadata json_objs today lookup travel args_csv omitted_IDs lineages = Inr out)
     \<longleftrightarrow> (\<forall>ID \<in> set old_list. \<exists>l. line_of old_dict (output_fields flds) ID = Inr l)
         \<and> (\<forall>ID \<in> (\<lambda>obj. accession_of (json_record flds obj)) ` set json_objs - set old_list.
               \<exists>r l. enrich (enrichment_steps today lookup travel omitted_IDs lineages)
                        (json_record flds (last (filter (\<lambda>obj. accession_of (json_record flds obj) = ID) json_objs)))
                      = Inr r
                    \<and> get_one_line r (output_fields flds) = Inr l)"
    (is "?L \<longleftrightarrow> ?O \<and> ?N")
proof -
  define new_id where "new_id = (\<lambda>obj. accession_of (json_record flds obj))"
  define new_ids where "new_ids = filter (\<lambda>x. x \<notin> set old_list) (map new_id json_objs)"
  define F where "F = output_fields flds"
  define fs where "fs = enrichment_steps today lookup travel omitted_IDs lineages"
  define all_dict where "all_dict = fold (\<lambda>obj d. dict_set (new_id obj) (json_record flds obj) d) json_objs []"
  have set_new: "set new_ids = new_id ` set json_objs - set old_list"
    by (auto simp: new_ids_def)
  have sub: "set new_ids \<subseteq> set (map (\<lambda>obj. accession_of (json_record flds obj)) json_objs)"
    by (auto simp: new_ids_def new_id_def)
  have stored: "map_of all_dict ID = Some (json_record flds (last (filter (\<lambda>obj. new_id obj = ID) json_objs)))"
    if "ID \<in> set new_ids" for ID
  proof -
    from that have "ID \<in> new_id ` set json_objs"
      by (simp add: set_new)
    then have "filter (\<lambda>obj. new_id obj = ID) json_objs \<noteq> []"
      by (auto simp: filter_empty_conv)
    then show ?thesis
      by (simp add: all_dict_def map_of_fold_dict_set)
  qed
  have js: "get_json_order_and_record_dict json_objs (fields_gisaid @ fields_edin) flds
      = Inr (map new_id json_objs, all_dict)"
    unfolding get_json_order_and_record_dict_def new_id_def all_dict_def
    using json_rows_result[of flds json_objs "[]" "[]"] by simp
  show ?thesis
  proof
    assume ?L
    then obtain out where run: "gisaid_json_2_metadata json_objs today lookup travel args_csv omitted_IDs lineages = Inr out"
      by blast
    from run_decomposition[OF run reg] obtain nd old_lines new_lines where
      steps: "apply_steps fs (new_keys new_ids)
             (fold (\<lambda>obj d. dict_set (accession_of (json_record flds obj)) (json_record flds obj) d) json_objs [])
             = Inr nd"
      and old: "sequence_err (map (line_of old_dict F) old_list) = Inr old_lines"
      and newl: "sequence_err (map (line_of nd F) new_ids) = Inr new_lines"
      unfolding fs_def new_ids_def new_id_def F_def by blast
    have "\<exists>l. line_of old_dict F ID = Inr l" if "ID \<in> set old_list" for ID
    proof -
      from that obtain i where "i < length old_list" "old_list ! i = ID"
        by (auto simp: in_set_conv_nth)
      with sequence_err_Inr[OF old] show ?thesis by blast
    qed
    moreover have "\<exists>r l. enrich fs (json_record flds (last (filter (\<lambda>obj. new_id obj = ID) json_objs))) = Inr r
                    \<and> get_one_line r F = Inr l" if "ID \<in> set new_ids" for ID
    proof -
      from that obtain k where k: "k < length new_ids" "new_ids ! k = ID"
        by (auto simp: in_set_conv_nth)
      from new_row_renders_enriched_record[OF steps newl sub k(1)] k(2) show ?thesis
        unfolding new_id_def by blast
    qed
    ultimately show "?O \<and> ?N"
      unfolding set_new[symmetric, unfolded new_id_def] F_def fs_def new_id_def by blast
  next
    assume rhs: "?O \<and> ?N"
    then have oldok: "\<forall>ID \<in> set old_list. \<exists>l. line_of old_dict F ID = Inr l"
      and newok: "\<forall>ID \<in> set new_ids. \<exists>r l. enrich fs (json_record flds (last (filter (\<lambda>obj. new_id obj = ID) json_objs))) = Inr r
                    \<and> get_one_line r F = Inr l"
      unfolding set_new fs_def F_def new_id_def by blast+
    have "\<forall>x \<in> set (new_keys new_ids). \<exists>v v'. map_of all_dict x = Some v \<and> enrich fs v = Inr v'"
      unfolding new_keys_set using stored newok by blast
    from apply_steps_succeeds[OF new_keys_distinct this] obtain nd where
      steps: "apply_steps fs (new_keys new_ids) all_dict = Inr nd"
      by blast
    have "\<exists>l. line_of nd F ID = Inr l" if ID: "ID \<in> set new_ids" for ID
    proof -
      from newok ID obtain r l where r: "enrich fs (json_record flds (last (filter (\<lambda>obj. new_id obj = ID) json_objs))) = Inr r"
        "get_one_line r F = Inr l"
        by blast
      from apply_steps_Inr[OF steps new_keys_distinct] ID stored[OF ID] obtain r' where
        "enrich fs (json_record flds (last (filter (\<lambda>obj. new_id obj = ID) json_objs))) = Inr r'"
        "map_of nd ID = Some r'"
        unfolding new_keys_set by blast
      with r show ?thesis
        by (simp add: line_of_def dict_get_def)
    qed
    then obtain new_lines where newl: "sequence_err (map (line_of nd F) new_ids) = Inr new_lines"
      using sequence_err_succeeds[of new_ids "line_of nd F"] by blast
    from oldok obtain old_lines where old: "sequence_err (map (line_of old_dict F) old_list) = Inr old_lines"
      using sequence_err_succeeds[of old_list "line_of old_dict F"] by blast
    have "gisaid_json_2_metadata json_objs today lookup travel args_csv omitted_IDs lineages
        = Inr ((join '','' F @ [CHR 0x0A]) # old_lines @ new_lines)"
      using steps old newl
      by (simp add: gisaid_json_2_metadata_def reg js write_output_def output_fields_def[symmetric]
            Let_def new_ids_def[symmetric] F_def[symmetric] fs_def[symmetric])
    then show ?L by blast
  qed
qed

text \<open>The rows of two dump lines with one new accession ID: \<open>row n\<close> is the place of
  the row of the \<open>n\<close>-th dump line in the output, behind the header, the registry's rows
  and the new rows of the lines before it.\<close>

lemma duplicate_rows_equal:
  assumes run: "gisaid_json_2_metadata json_objs today lookup travel args_csv omitted_IDs lineages = Inr out"
    and reg: "read_registry args_csv = Inr (flds, old_records_list, old_records_dict)"
    and lines: "i < j" "j < length json_objs"
    and same: "accession_of (json_record flds (json_objs ! i)) = ID"
              "accession_of (json_record flds (json_objs ! j)) = ID"
    and new: "ID \<notin> set old_records_list"
  shows "let ids = map (\<lambda>obj. accession_of (json_record flds obj)) json_objs;
             row = (\<lambda>n. 1 + length old_records_list
                          + length (filter (\<lambda>x. x \<notin> set old_records_list) (take n ids)));
             last_record = json_record flds
                             (last (filter (\<lambda>obj. accession_of (json_record flds obj) = ID) json_objs))
         in row i < row j \<and> row j < length out \<and> out ! row i = out ! row j
            \<and> (\<exists>r. enrich (enrichment_steps today lookup travel omitted_IDs lineages) last_record = Inr r
                   \<and> get_one_line r (output_fields flds) = Inr (out ! row j))"
proof -
  define ids where "ids = map (\<lambda>obj. accession_of (json_record flds obj)) json_objs"
  define P where "P = (\<lambda>x. x \<notin> set old_records_list)"
  define new_ids where "new_ids = filter P ids"
  define ki where "ki = length (filter P (take i ids))"
  define kj where "kj = length (filter P (take j ids))"
  define fs where "fs = enrichment_steps today lookup travel omitted_IDs lineages"
  from run_decomposition[OF run reg] obtain nd old_lines new_lines where
    steps: "apply_steps fs (new_keys new_ids)
             (fold (\<lambda>obj d. dict_set (accession_of (json_record flds obj)) (json_record flds obj) d) json_objs [])
             = Inr nd"
    and old: "sequence_err (map (line_of old_records_dict (output_fields flds)) old_records_list) = Inr old_lines"
    and newl: "sequence_err (map (line_of nd (output_fields flds)) new_ids) = Inr new_lines"
    and out: "out = (join '','' (output_fields flds) @ [CHR 0x0A]) # old_lines @ new_lines"
    unfolding fs_def new_ids_def P_def ids_def by blast
  have lo: "length old_lines = length old_records_list"
    using sequence_err_Inr[OF old] by simp
  have ln: "length new_lines = length new_ids"
    using sequence_err_Inr[OF newl] by simp
  have len: "length ids = length json_objs"
    by (simp add: ids_def)
  have idi: "ids ! i = ID" and idj: "ids ! j = ID"
    using lines same by (simp_all add: ids_def)
  have PID: "P ID"
    using new by (simp add: P_def)
  have pi: "ki < length new_ids" "new_ids ! ki = ID"
    using filter_take_position[of i ids P] lines len idi PID by (simp_all add: ki_def new_ids_def)
  have pj: "kj < length new_ids" "new_ids ! kj = ID"
    using filter_take_position[of j ids P] lines len idj PID by (simp_all add: kj_def new_ids_def)
  have lt: "ki < kj"
    using filter_take_mono[of i j ids P] lines len idi PID by (simp add: ki_def kj_def)
  have sub: "set new_ids \<subseteq> set (map (\<lambda>obj. accession_of (json_record flds obj)) json_objs)"
    by (auto simp: new_ids_def ids_def)
  from new_row_renders_enriched_record[OF steps newl sub pi(1)] obtain ri where
    ri: "enrich fs (json_record flds (last (filter (\<lambda>obj. accession_of (json_record flds obj) = ID) json_objs))) = Inr ri"
        "get_one_line ri (output_fields flds) = Inr (new_lines ! ki)"
    unfolding pi(2) by blast
  from new_row_renders_enriched_record[OF steps newl sub pj(1)] obtain rj where
    rj: "enrich fs (json_record flds (last (filter (\<lambda>obj. accession_of (json_record flds obj) = ID) json_objs))) = Inr rj"
        "get_one_line rj (output_fields flds) = Inr (new_lines ! kj)"
    unfolding pj(2) by blast
  have eq: "new_lines ! ki = new_lines ! kj"
    using ri rj by simp
  have nth: "out ! (1 + length old_records_list + k) = new_lines ! k" for k
    by (simp add: out nth_append lo)
  have "1 + length old_records_list + ki < 1 + length old_records_list + kj"
    using lt by simp
  moreover have "1 + length old_records_list + kj < length out"
    using pj(1) by (simp add: out lo ln)
  moreover have "out ! (1 + length old_records_list + ki) = out ! (1 + length old_records_list + kj)"
    using eq by (simp only: nth)
  moreover have "\<exists>r. enrich fs (json_record flds (last (filter (\<lambda>obj. accession_of (json_record flds obj) = ID) json_objs))) = Inr r
                   \<and> get_one_line r (output_fields flds) = Inr (out ! (1 + length old_records_list + kj))"
    using rj by (simp only: nth) blast
  ultimately show ?thesis
    unfolding Let_def ki_def kj_def P_def ids_def fs_def by blast
qed

text \<open>Splitting a line at the commas and joining the pieces gives the line back; a record
  read under distinct column names renders, in the order of those names, as its line; the
  columns of the output are distinct.\<close>

lemma split_on_nonempty: "split_on sep s \<noteq> []"
  by (induction s) (auto split: list.splits)

lemma join_split_on: "join [sep] (split_on sep s) = s"
proof (induction s)
  case Nil
  then show ?case by simp
next
  case (Cons c cs)
  obtain p ps where sp: "split_on sep cs = p # ps"
    using split_on_nonempty[of sep cs] by (cases "split_on sep cs") auto
  with Cons show ?case
    by (cases ps) auto
qed

lemma map_of_fold_pairs:
  assumes "distinct (map fst ps)"
  shows "map_of (fold (\<lambda>(k, v) d. dict_set k v d) ps d) x
       = (case map_of ps x of None \<Rightarrow> map_of d x | Some y \<Rightarrow> Some y)"
  using assms
proof (induction ps arbitrary: d)
  case Nil
  then show ?case by simp
next
  case (Cons p ps)
  obtain k v where p: "p = (k, v)" by (cases p)
  from Cons.prems have dist: "distinct (map fst ps)" and "k \<notin> fst ` set ps"
    by (simp_all add: p)
  then have none: "map_of ps k = None"
    by (simp add: map_of_eq_None_iff)
  show ?case
    using none by (auto simp: p Cons.IH[OF dist] map_of_dict_set split: option.splits)
qed

lemma map_of_dict_of_pairs_zip:
  assumes "distinct keys" "length l = length keys"
  shows "map_of (dict_of_pairs (zip keys l)) = map_of (zip keys l)"
proof -
  have "distinct (map fst (zip keys l))"
    using assms by simp
  then show ?thesis
    by (auto simp: dict_of_pairs_def map_of_fold_pairs fun_eq_iff split: option.splits)
qed

lemma map_the_map_of_zip:
  assumes "distinct keys" "length l = length keys"
  shows "map (\<lambda>k. the (map_of (zip keys l) k)) keys = l"
proof (rule nth_equalityI)
  show "length (map (\<lambda>k. the (map_of (zip keys l) k)) keys) = length l"
    using assms by simp
next
  fix i
  assume "i < length (map (\<lambda>k. the (map_of (zip keys l) k)) keys)"
  then have i: "i < length keys" by simp
  then have "map_of (zip keys l) (keys ! i) = Some (l ! i)"
    using assms by (simp add: map_of_zip_nth)
  with i show "map (\<lambda>k. the (map_of (zip keys l) k)) keys ! i = l ! i"
    by simp
qed

lemma get_one_line_csv_record:
  assumes dist: "distinct keys"
    and len: "length (split_on (CHR '','') (strip line)) = length keys"
  shows "get_one_line (csv_record keys flds line) keys = Inr (strip line @ [CHR 0x0A])"
proof -
  define l where "l = split_on (CHR '','') (strip line)"
  have val: "dict_get (csv_record keys flds line) k = Inr (the (map_of (zip keys l) k))"
    if "k \<in> set keys" for k
  proof -
    from that obtain i where i: "i < length keys" "keys ! i = k"
      by (auto simp: in_set_conv_nth)
    then have "map_of (zip keys l) k = Some (l ! i)"
      using dist len l_def by (metis map_of_zip_nth)
    then show ?thesis
      using dist len
      by (simp add: csv_record_def dict_get_def map_of_expand_dict l_def[symmetric]
            map_of_dict_of_pairs_zip)
  qed
  have "map (dict_get (csv_record keys flds line)) keys
      = map (\<lambda>k. Inr (the (map_of (zip keys l) k))) keys"
    using val by simp
  then have "sequence_err (map (dict_get (csv_record keys flds line)) keys)
      = Inr (map (\<lambda>k. the (map_of (zip keys l) k)) keys)"
    by (simp only: sequence_err_map_Inr)
  also have "map (\<lambda>k. the (map_of (zip keys l) k)) keys = l"
    using dist len by (simp add: map_the_map_of_zip l_def)
  finally show ?thesis
    using join_split_on[of "CHR '',''" "strip line"] by (simp add: get_one_line_def l_def)
qed

lemma extend_fields_invariant:
  assumes "distinct fs" "set fs \<inter> set (fields_gisaid @ fields_edin) = {}"
  shows "distinct (extend_fields keys fs) \<and> set (extend_fields keys fs) \<inter> set (fields_gisaid @ fields_edin) = {}"
  using assms unfolding extend_fields_def
proof (induction keys arbitrary: fs)
  case Nil
  then show ?case by simp
next
  case (Cons x keys)
  show ?case
  proof (cases "x \<notin> set (fields_gisaid @ fields_edin) \<and> x \<notin> set fs")
    case True
    then have "distinct (fs @ [x])" "set (fs @ [x]) \<inter> set (fields_gisaid @ fields_edin) = {}"
      using Cons.prems by auto
    from Cons.IH[OF this] True show ?thesis by simp
  next
    case False
    with Cons.IH[OF Cons.prems] show ?thesis by auto
  qed
qed

lemma distinct_fixed_fields:
  "distinct (fields_edin @ fields_gisaid)"
  by (simp add: fields_edin_def fields_gisaid_def)

lemma fields_apart: "distinct fields \<and> set fields \<inter> set (fields_gisaid @ fields_edin) = {}"
  by (simp add: fields_def fields_edin_def fields_gisaid_def)

lemma distinct_output_fields: "distinct (output_fields (extend_fields keys fields))"
proof -
  from extend_fields_invariant[of fields keys] fields_apart
  have "distinct (extend_fields keys fields)"
    "set (extend_fields keys fields) \<inter> set (fields_gisaid @ fields_edin) = {}"
    by blast+
  with distinct_fixed_fields show ?thesis
    by (auto simp: output_fields_def)
qed

lemma read_registry_result:
  assumes "read_registry (Some (header # rows)) = Inr (flds, old_list, old_dict)"
  shows "flds = extend_fields (split_on (CHR '','') (strip header)) fields
       \<and> old_list = map (\<lambda>line. accession_of (csv_record (split_on (CHR '','') (strip header)) flds line)) rows
       \<and> old_dict = fold (\<lambda>line d. dict_set (accession_of (csv_record (split_on (CHR '','') (strip header)) flds line))
                                     (csv_record (split_on (CHR '','') (strip header)) flds line) d) rows []
       \<and> (\<forall>line \<in> set rows. length (split_on (CHR '','') (strip line)) = length (split_on (CHR '','') (strip header)))"
proof -
  define keys where "keys = split_on (CHR '','') (strip header)"
  from assms have flds: "flds = extend_fields keys fields"
    and rows: "csv_rows keys (fields_gisaid @ fields_edin) flds rows ([], []) = Inr (old_list, old_dict)"
    by (auto simp: read_registry_def get_csv_order_and_record_dict_def Let_def keys_def
          split: if_splits sum.splits)
  from csv_rows_result[OF rows] flds show ?thesis
    unfolding keys_def by simp
qed

lemma single_occurrence:
  assumes "i < length xs" "length (filter (\<lambda>y. f y = f (xs ! i)) xs) = 1"
  shows "filter (\<lambda>y. f y = f (xs ! i)) xs = [xs ! i]"
proof -
  from assms(2) obtain y where y: "filter (\<lambda>y. f y = f (xs ! i)) xs = [y]"
    by (cases "filter (\<lambda>y. f y = f (xs ! i)) xs") auto
  have "xs ! i \<in> set (filter (\<lambda>y. f y = f (xs ! i)) xs)"
    using assms(1) by simp
  with y show ?thesis by simp
qed

text \<open>
  C6, as amended. A run against a registry that returns has written the header, then one
  row for every row of the registry in the registry's order, then one row for every line
  of the dump whose accession ID the registry does not have, in the order of the dump.
  A registry row is written from the record the registry holds for its accession ID (the
  last registry row with that ID), every field as read, none computed again, in the
  column order of the output: it is the registry's line itself (stripped, with a newline)
  when the registry's header is the output's header and no other registry row has the
  ID. A new row renders the enriched record of the last dump line with its ID.
\<close>

theorem registry_rows_first:
  assumes run: "gisaid_json_2_metadata json_objs today lookup travel (Some (header # rows))
                  omitted_IDs lineages = Inr out"
  shows "let keys = split_on (CHR '','') (strip header);
             flds = extend_fields keys fields;
             old_id = (\<lambda>line. accession_of (csv_record keys flds line));
             new_id = (\<lambda>obj. accession_of (json_record flds obj));
             new_ids = filter (\<lambda>x. x \<notin> set (map old_id rows)) (map new_id json_objs)
         in length out = 1 + length rows + length new_ids
          \<and> out ! 0 = join '','' (output_fields flds) @ [CHR 0x0A]
          \<and> (\<forall>i < length rows.
                get_one_line
                  (csv_record keys flds (last (filter (\<lambda>line. old_id line = old_id (rows ! i)) rows)))
                  (output_fields flds) = Inr (out ! (1 + i))
                \<and> (keys = output_fields flds
                     \<and> length (filter (\<lambda>line. old_id line = old_id (rows ! i)) rows) = 1
                   \<longrightarrow> out ! (1 + i) = strip (rows ! i) @ [CHR 0x0A]))
          \<and> (\<forall>k < length new_ids.
                \<exists>r. enrich (enrichment_steps today lookup travel omitted_IDs lineages)
                       (json_record flds (last (filter (\<lambda>obj. new_id obj = new_ids ! k) json_objs)))
                     = Inr r
                  \<and> get_one_line r (output_fields flds) = Inr (out ! (1 + length rows + k)))"
proof -
  define keys where "keys = split_on (CHR '','') (strip header)"
  define flds where "flds = extend_fields keys fields"
  define old_id where "old_id = (\<lambda>line. accession_of (csv_record keys flds line))"
  define new_id where "new_id = (\<lambda>obj. accession_of (json_record flds obj))"
  define new_ids where "new_ids = filter (\<lambda>x. x \<notin> set (map old_id rows)) (map new_id json_objs)"
  define F where "F = output_fields flds"
  define fs where "fs = enrichment_steps today lookup travel omitted_IDs lineages"
  from run obtain flds' old_list old_dict where
    reg: "read_registry (Some (header # rows)) = Inr (flds', old_list, old_dict)"
    by (auto simp: gisaid_json_2_metadata_def split: sum.splits)
  from read_registry_result[OF reg] have
    f: "flds' = flds"
    and ol: "old_list = map old_id rows"
    and od: "old_dict = fold (\<lambda>line d. dict_set (old_id line) (csv_record keys flds line) d) rows []"
    and lens: "\<forall>line \<in> set rows. length (split_on (CHR '','') (strip line)) = length keys"
    unfolding keys_def flds_def old_id_def by simp_all
  from run_decomposition[OF run reg] obtain nd old_lines new_lines where
    steps: "apply_steps fs (new_keys new_ids)
             (fold (\<lambda>obj d. dict_set (accession_of (json_record flds obj)) (json_record flds obj) d) json_objs [])
             = Inr nd"
    and old: "sequence_err (map (line_of old_dict F) old_list) = Inr old_lines"
    and newl: "sequence_err (map (line_of nd F) new_ids) = Inr new_lines"
    and out: "out = (join '','' F @ [CHR 0x0A]) # old_lines @ new_lines"
    unfolding fs_def new_ids_def new_id_def ol[symmetric] f F_def by blast
  have lo: "length old_lines = length rows"
    using sequence_err_Inr[OF old] by (simp add: ol)
  have ln: "length new_lines = length new_ids"
    using sequence_err_Inr[OF newl] by simp
  have size: "length out = 1 + length rows + length new_ids"
    by (simp add: out lo ln)
  have head: "out ! 0 = join '','' F @ [CHR 0x0A]"
    by (simp add: out)
  have old_row: "get_one_line (csv_record keys flds (last (filter (\<lambda>line. old_id line = old_id (rows ! i)) rows))) F
        = Inr (out ! (1 + i))
      \<and> (keys = F \<and> length (filter (\<lambda>line. old_id line = old_id (rows ! i)) rows) = 1
           \<longrightarrow> out ! (1 + i) = strip (rows ! i) @ [CHR 0x0A])"
    if i: "i < length rows" for i
  proof -
    have "rows ! i \<in> set rows"
      using i by simp
    then have ne: "filter (\<lambda>line. old_id line = old_id (rows ! i)) rows \<noteq> []"
      by (auto simp: filter_empty_conv)
    have stored: "map_of old_dict (old_id (rows ! i))
        = Some (csv_record keys flds (last (filter (\<lambda>line. old_id line = old_id (rows ! i)) rows)))"
      unfolding od using ne by (simp add: map_of_fold_dict_set)
    from sequence_err_Inr[OF old] i have "line_of old_dict F (old_id (rows ! i)) = Inr (old_lines ! i)"
      by (simp add: ol)
    with stored have line: "get_one_line (csv_record keys flds (last (filter (\<lambda>line. old_id line = old_id (rows ! i)) rows))) F
        = Inr (old_lines ! i)"
      by (simp add: line_of_def dict_get_def)
    have nth: "out ! (1 + i) = old_lines ! i"
      using i by (simp add: out nth_append lo)
    have "out ! (1 + i) = strip (rows ! i) @ [CHR 0x0A]"
      if canon: "keys = F" and once: "length (filter (\<lambda>line. old_id line = old_id (rows ! i)) rows) = 1"
    proof -
      have "filter (\<lambda>line. old_id line = old_id (rows ! i)) rows = [rows ! i]"
        using single_occurrence[OF i, of old_id] once by simp
      with line have l1: "get_one_line (csv_record keys flds (rows ! i)) keys = Inr (old_lines ! i)"
        by (simp add: canon)
      have "distinct F"
        unfolding F_def flds_def by (rule distinct_output_fields)
      then have "distinct keys"
        by (simp only: canon)
      moreover have "length (split_on (CHR '','') (strip (rows ! i))) = length keys"
        using lens i by simp
      ultimately have "get_one_line (csv_record keys flds (rows ! i)) keys = Inr (strip (rows ! i) @ [CHR 0x0A])"
        by (rule get_one_line_csv_record)
      with l1 nth show ?thesis by simp
    qed
    with line nth show ?thesis by simp
  qed
  have sub: "set new_ids \<subseteq> set (map (\<lambda>obj. accession_of (json_record flds obj)) json_objs)"
    by (auto simp: new_ids_def new_id_def)
  have new_row: "\<exists>r. enrich fs (json_record flds (last (filter (\<lambda>obj. new_id obj = new_ids ! k) json_objs))) = Inr r
                  \<and> get_one_line r F = Inr (out ! (1 + length rows + k))"
    if k: "k < length new_ids" for k
  proof -
    have "out ! (1 + length rows + k) = new_lines ! k"
      by (simp add: out nth_append lo)
    with new_row_renders_enriched_record[OF steps newl sub k] show ?thesis
      by (simp add: new_id_def)
  qed
  have all_old: "\<forall>i < length rows.
      get_one_line (csv_record keys flds (last (filter (\<lambda>line. old_id line = old_id (rows ! i)) rows))) F
        = Inr (out ! (1 + i))
      \<and> (keys = F \<and> length (filter (\<lambda>line. old_id line = old_id (rows ! i)) rows) = 1
           \<longrightarrow> out ! (1 + i) = strip (rows ! i) @ [CHR 0x0A])"
    using old_row by blast
  have all_new: "\<forall>k < length new_ids.
      \<exists>r. enrich fs (json_record flds (last (filter (\<lambda>obj. new_id obj = new_ids ! k) json_objs))) = Inr r
        \<and> get_one_line r F = Inr (out ! (1 + length rows + k))"
    using new_row by blast
  from size head all_old all_new
  have "length out = 1 + length rows + length new_ids
          \<and> out ! 0 = join '','' F @ [CHR 0x0A]
          \<and> (\<forall>i < length rows.
      get_one_line (csv_record keys flds (last (filter (\<lambda>line. old_id line = old_id (rows ! i)) rows))) F
        = Inr (out ! (1 + i))
      \<and> (keys = F \<and> length (filter (\<lambda>line. old_id line = old_id (rows ! i)) rows) = 1
           \<longrightarrow> out ! (1 + i) = strip (rows ! i) @ [CHR 0x0A]))
          \<and> (\<forall>k < length new_ids.
      \<exists>r. enrich fs (json_record flds (last (filter (\<lambda>obj. new_id obj = new_ids ! k) json_objs))) = Inr r
        \<and> get_one_line r F = Inr (out ! (1 + length rows + k)))"
    by (intro conjI)
  then show ?thesis
    unfolding Let_def new_ids_def F_def fs_def new_id_def old_id_def flds_def keys_def .
qed

text \<open>The example of the specification: the registry holds EPI_ISL_000001, the dump
  holds it again and EPI_ISL_000002. The registry's row is written as it stands, the
  new record behind it.\<close>

theorem registry_rows_first_witness:
  "gisaid_json_2_metadata
     [[(''covv_accession_id'', ''EPI_ISL_000001''), (''covv_virus_name'', ''hCoV-19/England/1/2020''),
       (''covv_location'', ''Europe / England / London''), (''covv_collection_date'', ''2020-03-01'')],
      [(''covv_accession_id'', ''EPI_ISL_000002''), (''covv_virus_name'', ''hCoV-19/Wales/2/2020''),
       (''covv_location'', ''Europe / Wales''), (''covv_collection_date'', ''2020-3-5'')]]
     ''2020-04-01'' (lookup_in [''United Kingdom'']) no_travel
     (Some [''edin_admin_0,edin_admin_1,edin_admin_2,edin_lineage,edin_travel,edin_omitted,edin_date_stamp,edin_flag,edin_epi_week,edin_annotation,covv_accession_id,covv_virus_name,covv_location,covv_collection_date,covv_add_host_info,covv_assembly_method,covv_gender,covv_host,covv_passage,covv_patient_age,covv_seq_technology,covv_specimen,covv_subm_date\<newline>'',
            ''UK,England,London,B.1,,,2020-03-20,,12,kept,EPI_ISL_000001,hCoV-19/England/1/2020,Europe / England / London,2020-03-01,,,,,,,,,\<newline>''])
     None None
   = Inr [''edin_admin_0,edin_admin_1,edin_admin_2,edin_lineage,edin_travel,edin_omitted,edin_date_stamp,edin_flag,edin_epi_week,edin_annotation,covv_accession_id,covv_virus_name,covv_location,covv_collection_date,covv_add_host_info,covv_assembly_method,covv_gender,covv_host,covv_passage,covv_patient_age,covv_seq_technology,covv_specimen,covv_subm_date\<newline>'',
          ''UK,England,London,B.1,,,2020-03-20,,12,kept,EPI_ISL_000001,hCoV-19/England/1/2020,Europe / England / London,2020-03-01,,,,,,,,,\<newline>'',
          ''UK,Wales,,,,,2020-04-01,check_date,,,EPI_ISL_000002,hCoV-19/Wales/2/2020,Europe / Wales,2020-3-5,,,,,,,,,\<newline>'']
   \<and> [''edin_admin_0,edin_admin_1,edin_admin_2,edin_lineage,edin_travel,edin_omitted,edin_date_stamp,edin_flag,edin_epi_week,edin_annotation,covv_accession_id,covv_virus_name,covv_location,covv_collection_date,covv_add_host_info,covv_assembly_method,covv_gender,covv_host,covv_passage,covv_patient_age,covv_seq_technology,covv_specimen,covv_subm_date\<newline>'',
       ''UK,England,London,B.1,,,2020-03-20,,12,kept,EPI_ISL_000001,hCoV-19/England/1/2020,Europe / England / London,2020-03-01,,,,,,,,,\<newline>'',
       ''UK,Wales,,,,,2020-04-01,check_date,,,EPI_ISL_000002,hCoV-19/Wales/2/2020,Europe / Wales,2020-3-5,,,,,,,,,\<newline>''] ! 1
     = strip ''UK,England,London,B.1,,,2020-03-20,,12,kept,EPI_ISL_000001,hCoV-19/England/1/2020,Europe / England / London,2020-03-01,,,,,,,,,\<newline>'' @ [CHR 0x0A]"
proof -
  let ?header = "''edin_admin_0,edin_admin_1,edin_admin_2,edin_lineage,edin_travel,edin_omitted,edin_date_stamp,edin_flag,edin_epi_week,edin_annotation,covv_accession_id,covv_virus_name,covv_location,covv_collection_date,covv_add_host_info,covv_assembly_method,covv_gender,covv_host,covv_passage,covv_patient_age,covv_seq_technology,covv_specimen,covv_subm_date\<newline>''"
  let ?row = "''UK,England,London,B.1,,,2020-03-20,,12,kept,EPI_ISL_000001,hCoV-19/England/1/2020,Europe / England / London,2020-03-01,,,,,,,,,\<newline>''"
  let ?objs = "[[(''covv_accession_id'', ''EPI_ISL_000001''), (''covv_virus_name'', ''hCoV-19/England/1/2020''),
       (''covv_location'', ''Europe / England / London''), (''covv_collection_date'', ''2020-03-01'')],
      [(''covv_accession_id'', ''EPI_ISL_000002''), (''covv_virus_name'', ''hCoV-19/Wales/2/2020''),
       (''covv_location'', ''Europe / Wales''), (''covv_collection_date'', ''2020-3-5'')]]"
  let ?out = "[?header, ?row, ''UK,Wales,,,,,2020-04-01,check_date,,,EPI_ISL_000002,hCoV-19/Wales/2/2020,Europe / Wales,2020-3-5,,,,,,,,,\<newline>'']"
  have run: "gisaid_json_2_metadata ?objs ''2020-04-01'' (lookup_in [''United Kingdom'']) no_travel
      (Some [?header, ?row]) None None = Inr ?out"
    by code_simp
  have canon: "split_on (CHR '','') (strip ?header)
      = output_fields (extend_fields (split_on (CHR '','') (strip ?header)) fields)"
    by code_simp
  note th = registry_rows_first[OF run, unfolded Let_def]
  from th have "\<forall>i < length [?row].
      split_on (CHR '','') (strip ?header)
        = output_fields (extend_fields (split_on (CHR '','') (strip ?header)) fields)
      \<and> length (filter (\<lambda>line. accession_of (csv_record (split_on (CHR '','') (strip ?header))
                 (extend_fields (split_on (CHR '','') (strip ?header)) fields) line)
               = accession_of (csv_record (split_on (CHR '','') (strip ?header))
                 (extend_fields (split_on (CHR '','') (strip ?header)) fields) ([?row] ! i))) [?row]) = 1
      \<longrightarrow> ?out ! (1 + i) = strip ([?row] ! i) @ [CHR 0x0A]"
    by blast
  then have "split_on (CHR '','') (strip ?header)
        = output_fields (extend_fields (split_on (CHR '','') (strip ?header)) fields)
      \<and> length (filter (\<lambda>line. accession_of (csv_record (split_on (CHR '','') (strip ?header))
                 (extend_fields (split_on (CHR '','') (strip ?header)) fields) line)
               = accession_of (csv_record (split_on (CHR '','') (strip ?header))
                 (extend_fields (split_on (CHR '','') (strip ?header)) fields) ([?row] ! 0))) [?row]) = 1
      \<longrightarrow> ?out ! (1 + 0) = strip ([?row] ! 0) @ [CHR 0x0A]"
    by (rule allE[where x = 0]) simp
  moreover have "length (filter (\<lambda>line. accession_of (csv_record (split_on (CHR '','') (strip ?header))
                 (extend_fields (split_on (CHR '','') (strip ?header)) fields) line)
               = accession_of (csv_record (split_on (CHR '','') (strip ?header))
                 (extend_fields (split_on (CHR '','') (strip ?header)) fields) ([?row] ! 0))) [?row]) = 1"
    by (simp only: nth_Cons_0 filter.simps refl if_True list.size One_nat_def)
  ultimately have "?out ! (1 + 0) = strip ([?row] ! 0) @ [CHR 0x0A]"
    using canon by blast
  then have "?out ! 1 = strip ?row @ [CHR 0x0A]"
    by (simp only: nth_Cons_0 add_0_right)
  with run show ?thesis
    by (rule conjI)
qed

text \<open>A registry whose header has the vendor columns first passes the header check, and
  its row is written in the column order of the output: not the registry's line.\<close>

theorem registry_rows_first_counterexample:
  "gisaid_json_2_metadata [] ''2020-04-01'' (lookup_in []) no_travel
     (Some [''covv_accession_id,covv_virus_name,covv_location,covv_collection_date,covv_add_host_info,covv_assembly_method,covv_gender,covv_host,covv_passage,covv_patient_age,covv_seq_technology,covv_specimen,covv_subm_date,edin_admin_0,edin_admin_1,edin_admin_2,edin_lineage,edin_travel,edin_omitted,edin_date_stamp,edin_flag,edin_epi_week,edin_annotation\<newline>'',
            ''EPI_ISL_000001,hCoV-19/England/1/2020,Europe / England / London,2020-03-01,,,,,,,,,,UK,England,London,B.1,,,2020-03-20,,12,kept\<newline>''])
     None None
   = Inr [''edin_admin_0,edin_admin_1,edin_admin_2,edin_lineage,edin_travel,edin_omitted,edin_date_stamp,edin_flag,edin_epi_week,edin_annotation,covv_accession_id,covv_virus_name,covv_location,covv_collection_date,covv_add_host_info,covv_assembly_method,covv_gender,covv_host,covv_passage,covv_patient_age,covv_seq_technology,covv_specimen,covv_subm_date\<newline>'',
          ''UK,England,London,B.1,,,2020-03-20,,12,kept,EPI_ISL_000001,hCoV-19/England/1/2020,Europe / England / London,2020-03-01,,,,,,,,,\<newline>'']
   \<and> ''UK,England,London,B.1,,,2020-03-20,,12,kept,EPI_ISL_000001,hCoV-19/England/1/2020,Europe / England / London,2020-03-01,,,,,,,,,\<newline>''
     \<noteq> ''EPI_ISL_000001,hCoV-19/England/1/2020,Europe / England / London,2020-03-01,,,,,,,,,,UK,England,London,B.1,,,2020-03-20,,12,kept\<newline>''"
  by code_simp

text \<open>Dropping a line of the dump that a later line repeats changes neither the set of
  accession IDs nor the last line of any ID.\<close>

lemma without_earlier_duplicate:
  assumes "i < j" "j < length xs" "f (xs ! i) = f (xs ! j)"
  shows "last (filter (\<lambda>x. f x = a) (take i xs @ drop (Suc i) xs)) = last (filter (\<lambda>x. f x = a) xs)
       \<and> f ` set (take i xs @ drop (Suc i) xs) = f ` set xs"
proof -
  have i: "i < length xs"
    using assms by simp
  have xs: "xs = take i xs @ xs ! i # drop (Suc i) xs"
    using i by (rule id_take_nth_drop)
  have "drop (Suc i) xs ! (j - Suc i) = xs ! j" "j - Suc i < length (drop (Suc i) xs)"
    using assms by simp_all
  then have mem: "xs ! j \<in> set (drop (Suc i) xs)"
    by (metis nth_mem)
  have "set xs = set (take i xs @ xs ! i # drop (Suc i) xs)"
    using xs by simp
  then have "f ` set xs = f ` set (take i xs @ drop (Suc i) xs) \<union> {f (xs ! i)}"
    by auto
  moreover have "f (xs ! i) \<in> f ` set (take i xs @ drop (Suc i) xs)"
    using mem assms(3) by auto
  ultimately have img: "f ` set (take i xs @ drop (Suc i) xs) = f ` set xs"
    by auto
  have split: "filter (\<lambda>x. f x = a) xs
      = filter (\<lambda>x. f x = a) (take i xs) @ filter (\<lambda>x. f x = a) [xs ! i]
        @ filter (\<lambda>x. f x = a) (drop (Suc i) xs)"
    by (subst xs) simp
  have "last (filter (\<lambda>x. f x = a) (take i xs @ drop (Suc i) xs)) = last (filter (\<lambda>x. f x = a) xs)"
  proof (cases "f (xs ! i) = a")
    case True
    with mem assms(3) have "filter (\<lambda>x. f x = a) (drop (Suc i) xs) \<noteq> []"
      by (auto simp: filter_empty_conv)
    then show ?thesis
      by (simp add: split)
  next
    case False
    then show ?thesis
      by (simp add: split)
  qed
  with img show ?thesis by simp
qed

text \<open>
  C10. When two lines of the dump, the \<open>i\<close>-th and the \<open>j\<close>-th, carry the same accession
  ID and the registry does not have it, the repeated line is no error: the run returns
  exactly when the run on the dump without the earlier of the two lines returns. The
  output of a run that returns has a row for each of the two lines; the two rows are
  equal, and they render the enriched record of the last dump line with that ID.
\<close>

theorem duplicate_json_lines:
  assumes reg: "read_registry args_csv = Inr (flds, old_records_list, old_records_dict)"
    and lines: "i < j" "j < length json_objs"
    and same: "accession_of (json_record flds (json_objs ! i)) = ID"
              "accession_of (json_record flds (json_objs ! j)) = ID"
    and new: "ID \<notin> set old_records_list"
  shows "((\<exists>out'. gisaid_json_2_metadata (take i json_objs @ drop (Suc i) json_objs)
                    today lookup travel args_csv omitted_IDs lineages = Inr out')
          \<longleftrightarrow> (\<exists>out. gisaid_json_2_metadata json_objs
                    today lookup travel args_csv omitted_IDs lineages = Inr out))
       \<and> (\<forall>out. gisaid_json_2_metadata json_objs today lookup travel args_csv omitted_IDs lineages
                   = Inr out
            \<longrightarrow> (let ids = map (\<lambda>obj. accession_of (json_record flds obj)) json_objs;
                     row = (\<lambda>n. 1 + length old_records_list
                                  + length (filter (\<lambda>x. x \<notin> set old_records_list) (take n ids)));
                     last_record = json_record flds
                                     (last (filter (\<lambda>obj. accession_of (json_record flds obj) = ID)
                                              json_objs))
                 in row i < row j \<and> row j < length out \<and> out ! row i = out ! row j
                    \<and> (\<exists>r. enrich (enrichment_steps today lookup travel omitted_IDs lineages)
                                last_record = Inr r
                           \<and> get_one_line r (output_fields flds) = Inr (out ! row j))))"
proof -
  have eq: "accession_of (json_record flds (json_objs ! i)) = accession_of (json_record flds (json_objs ! j))"
    using same by simp
  note w = without_earlier_duplicate[OF lines eq]
  have "(\<exists>out'. gisaid_json_2_metadata (take i json_objs @ drop (Suc i) json_objs)
                    today lookup travel args_csv omitted_IDs lineages = Inr out')
          \<longleftrightarrow> (\<exists>out. gisaid_json_2_metadata json_objs
                    today lookup travel args_csv omitted_IDs lineages = Inr out)"
    unfolding run_returns_iff[OF reg] using w by simp
  moreover have "\<forall>out. gisaid_json_2_metadata json_objs today lookup travel args_csv omitted_IDs lineages
                   = Inr out
            \<longrightarrow> (let ids = map (\<lambda>obj. accession_of (json_record flds obj)) json_objs;
                     row = (\<lambda>n. 1 + length old_records_list
                                  + length (filter (\<lambda>x. x \<notin> set old_records_list) (take n ids)));
                     last_record = json_record flds
                                     (last (filter (\<lambda>obj. accession_of (json_record flds obj) = ID)
                                              json_objs))
                 in row i < row j \<and> row j < length out \<and> out ! row i = out ! row j
                    \<and> (\<exists>r. enrich (enrichment_steps today lookup travel omitted_IDs lineages)
                                last_record = Inr r
                           \<and> get_one_line r (output_fields flds) = Inr (out ! row j)))"
    using duplicate_rows_equal[OF _ reg lines same new] by blast
  ultimately show ?thesis
    by (rule conjI)
qed

text \<open>A dump of three lines, the first and the third with the same ID, and no registry:
  rows 1 and 3 of the output are the record of the third line.\<close>

theorem duplicate_json_lines_witness:
  "gisaid_json_2_metadata
     [[(''covv_accession_id'', ''EPI_ISL_000001''), (''covv_location'', ''Europe / England / London''),
       (''covv_collection_date'', ''2020-03-01'')],
      [(''covv_accession_id'', ''EPI_ISL_000002''), (''covv_location'', ''Europe / Wales''),
       (''covv_collection_date'', ''2020-3-1'')],
      [(''covv_accession_id'', ''EPI_ISL_000001''), (''covv_location'', ''Europe / Scotland / Fife''),
       (''covv_collection_date'', ''2020-03-02'')]]
     ''2020-04-01'' (lookup_in [''United Kingdom'']) no_travel None None None
   = Inr [''edin_admin_0,edin_admin_1,edin_admin_2,edin_lineage,edin_travel,edin_omitted,edin_date_stamp,edin_flag,edin_epi_week,edin_annotation,covv_accession_id,covv_virus_name,covv_location,covv_collection_date,covv_add_host_info,covv_assembly_method,covv_gender,covv_host,covv_passage,covv_patient_age,covv_seq_technology,covv_specimen,covv_subm_date\<newline>'',
          ''UK,Scotland,Fife,,,,2020-04-01,,,,EPI_ISL_000001,,Europe / Scotland / Fife,2020-03-02,,,,,,,,,\<newline>'',
          ''UK,Wales,,,,,2020-04-01,check_date,,,EPI_ISL_000002,,Europe / Wales,2020-3-1,,,,,,,,,\<newline>'',
          ''UK,Scotland,Fife,,,,2020-04-01,,,,EPI_ISL_000001,,Europe / Scotland / Fife,2020-03-02,,,,,,,,,\<newline>'']
   \<and> [''edin_admin_0,edin_admin_1,edin_admin_2,edin_lineage,edin_travel,edin_omitted,edin_date_stamp,edin_flag,edin_epi_week,edin_annotation,covv_accession_id,covv_virus_name,covv_location,covv_collection_date,covv_add_host_info,covv_assembly_method,covv_gender,covv_host,covv_passage,covv_patient_age,covv_seq_technology,covv_specimen,covv_subm_date\<newline>'',
       ''UK,Scotland,Fife,,,,2020-04-01,,,,EPI_ISL_000001,,Europe / Scotland / Fife,2020-03-02,,,,,,,,,\<newline>'',
       ''UK,Wales,,,,,2020-04-01,check_date,,,EPI_ISL_000002,,Europe / Wales,2020-3-1,,,,,,,,,\<newline>'',
       ''UK,Scotland,Fife,,,,2020-04-01,,,,EPI_ISL_000001,,Europe / Scotland / Fife,2020-03-02,,,,,,,,,\<newline>''] ! 1
     = [''edin_admin_0,edin_admin_1,edin_admin_2,edin_lineage,edin_travel,edin_omitted,edin_date_stamp,edin_flag,edin_epi_week,edin_annotation,covv_accession_id,covv_virus_name,covv_location,covv_collection_date,covv_add_host_info,covv_assembly_method,covv_gender,covv_host,covv_passage,covv_patient_age,covv_seq_technology,covv_specimen,covv_subm_date\<newline>'',
        ''UK,Scotland,Fife,,,,2020-04-01,,,,EPI_ISL_000001,,Europe / Scotland / Fife,2020-03-02,,,,,,,,,\<newline>'',
        ''UK,Wales,,,,,2020-04-01,check_date,,,EPI_ISL_000002,,Europe / Wales,2020-3-1,,,,,,,,,\<newline>'',
        ''UK,Scotland,Fife,,,,2020-04-01,,,,EPI_ISL_000001,,Europe / Scotland / Fife,2020-03-02,,,,,,,,,\<newline>''] ! 3"
proof -
  let ?objs = "[[(''covv_accession_id'', ''EPI_ISL_000001''), (''covv_location'', ''Europe / England / London''),
       (''covv_collection_date'', ''2020-03-01'')],
      [(''covv_accession_id'', ''EPI_ISL_000002''), (''covv_location'', ''Europe / Wales''),
       (''covv_collection_date'', ''2020-3-1'')],
      [(''covv_accession_id'', ''EPI_ISL_000001''), (''covv_location'', ''Europe / Scotland / Fife''),
       (''covv_collection_date'', ''2020-03-02'')]]"
  let ?out = "[''edin_admin_0,edin_admin_1,edin_admin_2,edin_lineage,edin_travel,edin_omitted,edin_date_stamp,edin_flag,edin_epi_week,edin_annotation,covv_accession_id,covv_virus_name,covv_location,covv_collection_date,covv_add_host_info,covv_assembly_method,covv_gender,covv_host,covv_passage,covv_patient_age,covv_seq_technology,covv_specimen,covv_subm_date\<newline>'',
          ''UK,Scotland,Fife,,,,2020-04-01,,,,EPI_ISL_000001,,Europe / Scotland / Fife,2020-03-02,,,,,,,,,\<newline>'',
          ''UK,Wales,,,,,2020-04-01,check_date,,,EPI_ISL_000002,,Europe / Wales,2020-3-1,,,,,,,,,\<newline>'',
          ''UK,Scotland,Fife,,,,2020-04-01,,,,EPI_ISL_000001,,Europe / Scotland / Fife,2020-03-02,,,,,,,,,\<newline>'']"
  have run: "gisaid_json_2_metadata ?objs ''2020-04-01'' (lookup_in [''United Kingdom'']) no_travel
      None None None = Inr ?out"
    by code_simp
  have reg: "read_registry None = Inr (fields, [], [])"
    by (simp add: read_registry_def)
  have a0: "accession_of (json_record fields
        [(''covv_accession_id'', ''EPI_ISL_000001''), (''covv_location'', ''Europe / England / London''),
         (''covv_collection_date'', ''2020-03-01'')]) = ''EPI_ISL_000001''"
    by code_simp
  have a1: "accession_of (json_record fields
        [(''covv_accession_id'', ''EPI_ISL_000002''), (''covv_location'', ''Europe / Wales''),
         (''covv_collection_date'', ''2020-3-1'')]) = ''EPI_ISL_000002''"
    by code_simp
  have a2: "accession_of (json_record fields
        [(''covv_accession_id'', ''EPI_ISL_000001''), (''covv_location'', ''Europe / Scotland / Fife''),
         (''covv_collection_date'', ''2020-03-02'')]) = ''EPI_ISL_000001''"
    by code_simp
  have ids: "map (\<lambda>obj. accession_of (json_record fields obj)) ?objs
      = [''EPI_ISL_000001'', ''EPI_ISL_000002'', ''EPI_ISL_000001'']"
    by (simp only: list.map a0 a1 a2)
  have i: "accession_of (json_record fields (?objs ! 0)) = ''EPI_ISL_000001''"
    by (simp only: nth_Cons_0 a0)
  have j: "accession_of (json_record fields (?objs ! 2)) = ''EPI_ISL_000001''"
    using a2 by simp
  have lt: "(0::nat) < 2" and len: "2 < length ?objs" and new: "''EPI_ISL_000001'' \<notin> set []"
    by simp_all
  note th = duplicate_json_lines[OF reg lt len i j new, of "''2020-04-01''"
      "lookup_in [''United Kingdom'']" no_travel None None, THEN conjunct2, THEN spec, THEN mp,
      OF run, unfolded Let_def]
  note eq = th[THEN conjunct2, THEN conjunct2, THEN conjunct1]
  have p1: "1 + length ([]::string list)
      + length (filter (\<lambda>x. x \<notin> set []) (take 0 (map (\<lambda>obj. accession_of (json_record fields obj)) ?objs)))
      = 1"
    by simp
  have p3: "1 + length ([]::string list)
      + length (filter (\<lambda>x. x \<notin> set []) (take 2 (map (\<lambda>obj. accession_of (json_record fields obj)) ?objs)))
      = 3"
    unfolding ids by simp
  from eq have "?out ! 1 = ?out ! 3"
    unfolding p1 p3 .
  with run show ?thesis
    by (rule conjI)
qed

section \<open>Properties of the administrative levels\<close>

text \<open>
  C1. A country that is none of the five exceptions and that the lookup does not find
  should be flagged, and the run go on. The converter calls
  \<open>get_admin_levels_from_json_dict\<close> with one argument, so inside it \<open>warnings\<close> is
  \<open>True\<close>, and the first statement of the \<open>except\<close> branch, \<open>warnings.warn(...)\<close>, raises
  \<open>AttributeError\<close>: no flag is written, and the exception ends the run before any
  output.
\<close>

theorem unknown_country_aborts:
  assumes loc: "dict_get d ''covv_location'' = Inr covv_location"
    and country: "fst (location_levels covv_location) = country"
    and unknown: "country \<notin> set known_exceptions" "\<not> lookup country"
  shows "get_admin_levels_from_json_dict lookup d (Flag True) = Inl AttributeError"
proof -
  obtain sub subsub where lv: "location_levels covv_location = (country, sub, subsub)"
    using country by (cases "location_levels covv_location") auto
  have "list_all (\<lambda>x. country \<noteq> x) known_exceptions"
    using unknown(1) by (auto simp: list_all_iff)
  then have "check_country lookup (Flag True) country d = Inl AttributeError"
    using unknown(2) by (simp add: check_country_def truthy_def)
  then show ?thesis
    by (simp add: get_admin_levels_from_json_dict_def loc lv)
qed

theorem unknown_country_aborts_witness:
  "get_admin_levels_from_json_dict (lookup_in [''United Kingdom''])
     [(''covv_accession_id'', ''EPI_ISL_000003''), (''covv_location'', ''Asia / Atlantis''),
      (''edin_flag'', [])] (Flag True)
   = Inl AttributeError
   \<and> gisaid_json_2_metadata
       [[(''covv_accession_id'', ''EPI_ISL_000003''), (''covv_location'', ''Asia / Atlantis'')]]
       ''2020-04-01'' (lookup_in [''United Kingdom'']) no_travel None None None
     = Inl AttributeError"
proof -
  let ?d = "[(''covv_accession_id'', ''EPI_ISL_000003''), (''covv_location'', ''Asia / Atlantis''),
      (''edin_flag'', [])]"
  have loc: "dict_get ?d ''covv_location'' = Inr ''Asia / Atlantis''"
    by code_simp
  have country: "fst (location_levels ''Asia / Atlantis'') = ''Atlantis''"
    by code_simp
  have unknown: "''Atlantis'' \<notin> set known_exceptions" "\<not> lookup_in [''United Kingdom''] ''Atlantis''"
    by (simp_all add: known_exceptions_def lookup_in_def)
  have run: "gisaid_json_2_metadata
       [[(''covv_accession_id'', ''EPI_ISL_000003''), (''covv_location'', ''Asia / Atlantis'')]]
       ''2020-04-01'' (lookup_in [''United Kingdom'']) no_travel None None None
     = Inl AttributeError"
    by code_simp
  from unknown_country_aborts[of ?d "''Asia / Atlantis''" "''Atlantis''" "lookup_in [''United Kingdom'']",
      OF loc country unknown] run show ?thesis
    by (rule conjI)
qed

text \<open>Only a caller that passes the module \<open>warnings\<close> itself gets the flag.\<close>

lemma flag_appended_when_module_is_passed:
  "get_admin_levels_from_json_dict (lookup_in [''United Kingdom''])
     [(''covv_accession_id'', ''EPI_ISL_000003''), (''covv_location'', ''Asia / Atlantis''),
      (''edin_flag'', ''check_date'')] Module
   = Inr [(''covv_accession_id'', ''EPI_ISL_000003''), (''covv_location'', ''Asia / Atlantis''),
          (''edin_flag'', ''check_date:check_country''), (''edin_admin_0'', ''Atlantis''),
          (''edin_admin_1'', []), (''edin_admin_2'', [])]"
  by code_simp

text \<open>
  C5, as amended. The code reads the first token of \<open>covv_location\<close> as the continent
  and the second as the country. For the location \<open>Europe / England / Greater London\<close>,
  when the lookup finds \<open>United Kingdom\<close>, the three levels are \<open>UK\<close>, \<open>England\<close> and
  \<open>Greater London\<close>. For the location \<open>England / Greater London /\<close> the country read
  is \<open>Greater London\<close>: when the lookup finds that name, the three levels are
  \<open>Greater London\<close> and two empty strings.
\<close>

theorem admin_levels_continent_first:
  assumes loc: "dict_get d ''covv_location'' = Inr covv_location"
  shows "(covv_location = ''Europe / England / Greater London'' \<and> lookup ''United Kingdom''
          \<longrightarrow> get_admin_levels_from_json_dict lookup d (Flag True)
              = Inr (dict_set ''edin_admin_2'' ''Greater London''
                      (dict_set ''edin_admin_1'' ''England'' (dict_set ''edin_admin_0'' ''UK'' d))))
       \<and> (covv_location = ''England / Greater London /'' \<and> lookup ''Greater London''
          \<longrightarrow> get_admin_levels_from_json_dict lookup d (Flag True)
              = Inr (dict_set ''edin_admin_2'' []
                      (dict_set ''edin_admin_1'' [] (dict_set ''edin_admin_0'' ''Greater London'' d))))"
proof -
  have l1: "location_levels ''Europe / England / Greater London''
      = (''United Kingdom'', ''England'', ''Greater London'')"
    by code_simp
  have l2: "location_levels ''England / Greater London /'' = (''Greater London'', [], [])"
    by code_simp
  have e1: "list_all (\<lambda>x. ''United Kingdom'' \<noteq> x) known_exceptions"
    and e2: "list_all (\<lambda>x. ''Greater London'' \<noteq> x) known_exceptions"
    by (simp_all add: known_exceptions_def)
  have f1: "final_country ''United Kingdom'' = ''UK''"
    and f2: "final_country ''Greater London'' = ''Greater London''"
    by (simp_all add: final_country_def)
  show ?thesis
    using loc by (simp add: get_admin_levels_from_json_dict_def check_country_def truthy_def
        l1 l2 e1 e2 f1 f2)
qed

theorem admin_levels_continent_first_witness:
  "get_admin_levels_from_json_dict (lookup_in [''United Kingdom''])
     [(''covv_accession_id'', ''EPI_ISL_000004''),
      (''covv_location'', ''Europe / England / Greater London''), (''edin_flag'', [])] (Flag True)
   = Inr [(''covv_accession_id'', ''EPI_ISL_000004''),
          (''covv_location'', ''Europe / England / Greater London''), (''edin_flag'', []),
          (''edin_admin_0'', ''UK''), (''edin_admin_1'', ''England''),
          (''edin_admin_2'', ''Greater London'')]"
proof -
  let ?d = "[(''covv_accession_id'', ''EPI_ISL_000004''),
      (''covv_location'', ''Europe / England / Greater London''), (''edin_flag'', [])]"
  have loc: "dict_get ?d ''covv_location'' = Inr ''Europe / England / Greater London''"
    by code_simp
  have known: "lookup_in [''United Kingdom''] ''United Kingdom''"
    by (simp add: lookup_in_def)
  have sets: "dict_set ''edin_admin_2'' ''Greater London''
                (dict_set ''edin_admin_1'' ''England'' (dict_set ''edin_admin_0'' ''UK'' ?d))
      = [(''covv_accession_id'', ''EPI_ISL_000004''),
          (''covv_location'', ''Europe / England / Greater London''), (''edin_flag'', []),
          (''edin_admin_0'', ''UK''), (''edin_admin_1'', ''England''),
          (''edin_admin_2'', ''Greater London'')]"
    by code_simp
  from admin_levels_continent_first[OF loc, of "lookup_in [''United Kingdom'']"] known
  have "get_admin_levels_from_json_dict (lookup_in [''United Kingdom'']) ?d (Flag True)
      = Inr (dict_set ''edin_admin_2'' ''Greater London''
              (dict_set ''edin_admin_1'' ''England'' (dict_set ''edin_admin_0'' ''UK'' ?d)))"
    by blast
  then show ?thesis
    by (simp only: sets)
qed

text \<open>For the location \<open>England / Greater London /\<close> the first level is never \<open>UK\<close>:
  it is \<open>Greater London\<close> when the lookup finds that name, and the call raises when it
  does not.\<close>

theorem admin_levels_continent_first_counterexample:
  "location_levels ''England / Greater London /'' = (''Greater London'', [], [])
   \<and> get_admin_levels_from_json_dict (lookup_in [''United Kingdom'', ''Greater London''])
       [(''covv_accession_id'', ''EPI_ISL_000004''),
        (''covv_location'', ''England / Greater London /''), (''edin_flag'', [])] (Flag True)
     = Inr [(''covv_accession_id'', ''EPI_ISL_000004''),
            (''covv_location'', ''England / Greater London /''), (''edin_flag'', []),
            (''edin_admin_0'', ''Greater London''), (''edin_admin_1'', []), (''edin_admin_2'', [])]
   \<and> get_admin_levels_from_json_dict (lookup_in [''United Kingdom''])
       [(''covv_accession_id'', ''EPI_ISL_000004''),
        (''covv_location'', ''England / Greater London /''), (''edin_flag'', [])] (Flag True)
     = Inl AttributeError"
  by code_simp

end
